theory Spec2Isabelle
  imports Main "HOL-Library.Sublist" "HOL-Library.AList"
begin

section \<open>The dotfiles installer (install/main.py)\<close>

text \<open>
  The script detects the operating system, asks for confirmation, walks the directory of
  dotfiles of that system and, per file, appends its body to the destination (when the
  first line holds the append marker), links it (Linux, macOS) or copies it (Windows).

  The model is a shallow embedding: Python strings are \<open>string\<close>, a character standing
  for a code point below 256; the file system is an explicit state; every exception is
  a value of \<open>error\<close>; a function that touches the file system returns its result
  together with the file system it leaves behind, also when it raises.
\<close>

subsection \<open>Python strings\<close>

definition LF :: char where
  "LF = CHR 0x0A"

definition CR :: char where
  "CR = CHR 0x0D"

definition isspace :: "char \<Rightarrow> bool" where
  \<comment> \<open>\<open>str.isspace\<close> on one character, which \<open>split()\<close> and \<open>strip()\<close> use:
      TAB, LF, VT, FF, CR, FS, GS, RS, US, SPACE, NEL, NBSP.\<close>
  "isspace c = (c \<in> set [CHR 0x09, CHR 0x0A, CHR 0x0B, CHR 0x0C, CHR 0x0D, CHR 0x1C,
                           CHR 0x1D, CHR 0x1E, CHR 0x1F, CHR 0x20, CHR 0x85, CHR 0xA0])"

definition islinebreak :: "char \<Rightarrow> bool" where
  \<comment> \<open>the line boundaries of \<open>str.splitlines\<close>: LF, VT, FF, CR, FS, GS, RS, NEL.\<close>
  "islinebreak c = (c \<in> set [CHR 0x0A, CHR 0x0B, CHR 0x0C, CHR 0x0D, CHR 0x1C, CHR 0x1D,
                               CHR 0x1E, CHR 0x85])"

definition char_lower :: "char \<Rightarrow> char" where
  \<comment> \<open>\<open>str.lower\<close> on one character: A-Z, and the capital letters 0xC0-0xDE of
      Latin-1 but the multiplication sign 0xD7, move up by 32.\<close>
  "char_lower c =
     (let n = (of_char c :: nat)
      in if (65 \<le> n \<and> n \<le> 90) \<or> (192 \<le> n \<and> n \<le> 222 \<and> n \<noteq> 215)
         then char_of (n + 32) else c)"

definition lower :: "string \<Rightarrow> string" where
  "lower s = map char_lower s"

fun split_from :: "string \<Rightarrow> string \<Rightarrow> string list" where
  \<comment> \<open>the scan of \<open>str.split()\<close>; the first argument is the word read so far.\<close>
  "split_from cur [] = (if cur = [] then [] else [cur])"
| "split_from cur (c # cs) =
     (if isspace c then (if cur = [] then split_from [] cs else cur # split_from [] cs)
      else split_from (cur @ [c]) cs)"

definition split :: "string \<Rightarrow> string list" where
  \<comment> \<open>\<open>s.split()\<close>: the maximal runs of characters that are not whitespace.\<close>
  "split s = split_from [] s"

fun join :: "string \<Rightarrow> string list \<Rightarrow> string" where
  \<comment> \<open>\<open>sep.join(xs)\<close>\<close>
  "join sep [] = []"
| "join sep [x] = x"
| "join sep (x # y # ys) = x @ sep @ join sep (y # ys)"

fun contains :: "string \<Rightarrow> string \<Rightarrow> bool" where
  \<comment> \<open>\<open>sub in s\<close>\<close>
  "contains sub [] = (sub = [])"
| "contains sub (c # cs) = (prefix sub (c # cs) \<or> contains sub cs)"

definition strip :: "string \<Rightarrow> string" where
  \<comment> \<open>\<open>s.strip()\<close>\<close>
  "strip s = rev (dropWhile isspace (rev (dropWhile isspace s)))"

fun splitlines_from :: "string \<Rightarrow> string \<Rightarrow> string list" where
  \<comment> \<open>the scan of \<open>str.splitlines()\<close>; the first argument is the line read so far.
      CR LF is one boundary; a boundary at the very end opens no further line.\<close>
  "splitlines_from cur [] = (if cur = [] then [] else [cur])"
| "splitlines_from cur [c] = (if islinebreak c then [cur] else [cur @ [c]])"
| "splitlines_from cur (c # d # cs) =
     (if c = CR \<and> d = LF then cur # splitlines_from [] cs
      else if islinebreak c then cur # splitlines_from [] (d # cs)
      else splitlines_from (cur @ [c]) (d # cs))"

definition splitlines :: "string \<Rightarrow> string list" where
  "splitlines s = splitlines_from [] s"

definition endswith :: "string \<Rightarrow> string \<Rightarrow> bool" where
  "endswith s suf = suffix suf s"

subsection \<open>Text streams\<close>

text \<open>
  \<open>open(path, "r", encoding="utf-8")\<close> reads with universal newlines: CR LF and a lone CR
  arrive as LF. Writing in text mode turns each LF into the line separator of the
  platform. A file of the model holds its text as stored, before that translation.
\<close>

fun universal_newlines :: "string \<Rightarrow> string" where
  "universal_newlines [] = []"
| "universal_newlines [c] = [if c = CR then LF else c]"
| "universal_newlines (c # d # cs) =
     (if c = CR \<and> d = LF then LF # universal_newlines cs
      else if c = CR then LF # universal_newlines (d # cs)
      else c # universal_newlines (d # cs))"

definition readline :: "string \<Rightarrow> string \<times> string" where
  \<comment> \<open>\<open>f.readline()\<close> on the text still to be read: the line with its LF, and the
      text left in the stream.\<close>
  "readline txt =
     (takeWhile (\<lambda>c. c \<noteq> LF) txt @ take 1 (dropWhile (\<lambda>c. c \<noteq> LF) txt),
      drop 1 (dropWhile (\<lambda>c. c \<noteq> LF) txt))"

subsection \<open>The file system\<close>

text \<open>
  A path is absolute and normalised: the list of its names from the root, the root itself
  being \<open>[]\<close>. An entry is a regular file with its content, a directory, or a symbolic
  link with its (absolute) target. The file system is an association list from the place
  of an entry to the entry; the order of the list stands for the order, left open by the
  operating system, in which a directory scan reports entries. Permissions, quotas and
  encoding errors are outside the model.
\<close>

type_synonym path = "string list"

datatype entry = File string | Dir | Symlink path

type_synonym filesystem = "(path \<times> entry) list"

text \<open>
  The exceptions of the script and of the library calls it makes. \<open>SymlinkLoopError\<close> is
  the \<open>OSError\<close> of a path with too many links (the \<open>RuntimeError\<close> of
  \<open>Path.resolve\<close>), \<open>RmtreeOnSymlinkError\<close> and \<open>ResourceBusyError\<close> are the
  \<open>OSError\<close>s of \<open>shutil.rmtree\<close> on a link and on the root,
  \<open>UnsupportedOperatingSystem\<close> is the \<open>Exception\<close> \<open>detect_os\<close> raises, with the name
  it reports. Errors are named as on Linux and macOS.
\<close>

datatype error =
    FileNotFoundError
  | NotADirectoryError
  | IsADirectoryError
  | FileExistsError
  | SymlinkLoopError
  | SameFileError
  | RmtreeOnSymlinkError
  | ResourceBusyError
  | EOFError
  | UnsupportedOperatingSystem string

definition lookup :: "filesystem \<Rightarrow> path \<Rightarrow> entry option" where
  "lookup fs p = (if p = [] then Some Dir else map_of fs p)"

definition MAXSYMLINKS :: nat where
  \<comment> \<open>the number of symbolic links one path resolution follows before it gives up.\<close>
  "MAXSYMLINKS = 40"

fun walk :: "filesystem \<Rightarrow> nat \<Rightarrow> path \<Rightarrow> path \<Rightarrow> error + path" where
  \<comment> \<open>path resolution as the operating system does it: \<open>cur\<close> is the directory
      reached, the last argument the names still to go, \<open>n\<close> the links that may still
      be followed. The last name may be absent; every link on the way is followed.\<close>
  "walk fs n cur [] = Inr cur"
| "walk fs n cur (c # rest) =
     (case lookup fs (cur @ [c]) of
        None \<Rightarrow> if rest = [] then Inr (cur @ [c]) else Inl FileNotFoundError
      | Some (File _) \<Rightarrow> if rest = [] then Inr (cur @ [c]) else Inl NotADirectoryError
      | Some Dir \<Rightarrow> walk fs n (cur @ [c]) rest
      | Some (Symlink t) \<Rightarrow>
          if n = 0 then Inl SymlinkLoopError else walk fs (n - 1) [] (t @ rest))"

definition stat :: "filesystem \<Rightarrow> path \<Rightarrow> error + (path \<times> entry)" where
  \<comment> \<open>\<open>os.stat\<close>: the place and the entry a path leads to, links followed.\<close>
  "stat fs p =
     (case walk fs MAXSYMLINKS [] p of
        Inl e \<Rightarrow> Inl e
      | Inr q \<Rightarrow> (case lookup fs q of None \<Rightarrow> Inl FileNotFoundError | Some x \<Rightarrow> Inr (q, x)))"

definition open_read :: "filesystem \<Rightarrow> path \<Rightarrow> error + string" where
  \<comment> \<open>opening a file for reading and taking all it stores.\<close>
  "open_read fs p =
     (case stat fs p of
        Inl e \<Rightarrow> Inl e
      | Inr (q, File content) \<Rightarrow> Inr content
      | Inr (q, Dir) \<Rightarrow> Inl IsADirectoryError
      | Inr (q, Symlink t) \<Rightarrow> Inl SymlinkLoopError)"

definition exists :: "filesystem \<Rightarrow> path \<Rightarrow> bool" where
  \<comment> \<open>\<open>Path.exists()\<close>: links followed, every failure of the resolution read as
      absence.\<close>
  "exists fs p = (case stat fs p of Inl e \<Rightarrow> False | Inr x \<Rightarrow> True)"

definition is_dir :: "filesystem \<Rightarrow> path \<Rightarrow> bool" where
  "is_dir fs p = (case stat fs p of Inr (q, Dir) \<Rightarrow> True | _ \<Rightarrow> False)"

definition is_file :: "filesystem \<Rightarrow> path \<Rightarrow> bool" where
  "is_file fs p = (case stat fs p of Inr (q, File content) \<Rightarrow> True | _ \<Rightarrow> False)"

definition parent :: "path \<Rightarrow> path" where
  \<comment> \<open>\<open>Path.parent\<close>; the root is its own parent.\<close>
  "parent p = butlast p"

definition locate :: "filesystem \<Rightarrow> path \<Rightarrow> error + path" where
  \<comment> \<open>where the last name of a path lives, that name itself not followed: the place
      \<open>os.lstat\<close>, \<open>os.mkdir\<close>, \<open>os.symlink\<close> and \<open>os.unlink\<close> address.\<close>
  "locate fs p =
     (if p = [] then Inr []
      else case stat fs (parent p) of
             Inl e \<Rightarrow> Inl e
           | Inr (d, Dir) \<Rightarrow> Inr (d @ [last p])
           | Inr (d, _) \<Rightarrow> Inl NotADirectoryError)"

definition lstat :: "filesystem \<Rightarrow> path \<Rightarrow> error + (path \<times> entry)" where
  "lstat fs p =
     (case locate fs p of
        Inl e \<Rightarrow> Inl e
      | Inr q \<Rightarrow> (case lookup fs q of None \<Rightarrow> Inl FileNotFoundError | Some x \<Rightarrow> Inr (q, x)))"

definition is_symlink :: "filesystem \<Rightarrow> path \<Rightarrow> bool" where
  "is_symlink fs p = (case lstat fs p of Inr (q, Symlink t) \<Rightarrow> True | _ \<Rightarrow> False)"

definition os_mkdir :: "filesystem \<Rightarrow> path \<Rightarrow> (error + unit) \<times> filesystem" where
  "os_mkdir fs p =
     (case locate fs p of
        Inl e \<Rightarrow> (Inl e, fs)
      | Inr q \<Rightarrow>
          if lookup fs q = None then (Inr (), AList.update q Dir fs)
          else (Inl FileExistsError, fs))"

function mkdir :: "filesystem \<Rightarrow> path \<Rightarrow> bool \<Rightarrow> bool \<Rightarrow> (error + unit) \<times> filesystem" where
  \<comment> \<open>\<open>Path.mkdir(parents, exist_ok)\<close>: a missing parent is made first when \<open>parents\<close>
      holds; any other failure is forgiven when \<open>exist_ok\<close> holds and the path is a
      directory.\<close>
  "mkdir fs p parents exist_ok =
     (case os_mkdir fs p of
        (Inr u, fs') \<Rightarrow> (Inr (), fs')
      | (Inl e, fs') \<Rightarrow>
          if e = FileNotFoundError then
            (if \<not> parents \<or> parent p = p then (Inl e, fs')
             else case mkdir fs' (parent p) True True of
                    (Inl e', fs'') \<Rightarrow> (Inl e', fs'')
                  | (Inr u, fs'') \<Rightarrow> mkdir fs'' p False exist_ok)
          else if \<not> exist_ok \<or> \<not> is_dir fs' p then (Inl e, fs')
          else (Inr (), fs'))"
  by pat_completeness auto
termination
  by (relation "measure (\<lambda>(fs, p, parents, exist_ok). 2 * length p + (if parents then 1 else 0))")
     (auto simp: parent_def butlast_conv_take intro: Suc_lessI)

declare mkdir.simps [simp del]

definition unlink :: "filesystem \<Rightarrow> path \<Rightarrow> (error + unit) \<times> filesystem" where
  "unlink fs p =
     (case lstat fs p of
        Inl e \<Rightarrow> (Inl e, fs)
      | Inr (q, Dir) \<Rightarrow> (Inl IsADirectoryError, fs)
      | Inr (q, _) \<Rightarrow> (Inr (), AList.delete q fs))"

definition rmtree :: "filesystem \<Rightarrow> path \<Rightarrow> (error + unit) \<times> filesystem" where
  \<comment> \<open>\<open>shutil.rmtree\<close>: a directory goes with all below it; a symbolic link is
      refused; the root directory is emptied but cannot itself be removed.\<close>
  "rmtree fs p =
     (case lstat fs p of
        Inl e \<Rightarrow> (Inl e, fs)
      | Inr (q, Symlink t) \<Rightarrow> (Inl RmtreeOnSymlinkError, fs)
      | Inr (q, File content) \<Rightarrow> (Inl NotADirectoryError, fs)
      | Inr (q, Dir) \<Rightarrow>
          (if q = [] then Inl ResourceBusyError else Inr (),
           filter (\<lambda>(r, x). \<not> prefix q r) fs))"

text \<open>
  \<open>Path.resolve()\<close> goes through \<open>os.path.realpath\<close>, which follows links itself, name
  by name, and keeps a table of the links it has met: a link under resolution (\<open>None\<close>)
  or resolved (its real path). The table, not a count of links, ends a loop, so a chain of
  links of any length is resolved. Names that lead nowhere are kept as they are.
\<close>

type_synonym seen = "(path \<times> path option) list"

function joinrealpath :: "filesystem \<Rightarrow> path \<Rightarrow> path \<Rightarrow> seen \<Rightarrow> (path \<times> bool) \<times> seen" where
  \<comment> \<open>\<open>posixpath._joinrealpath(path, rest, strict=False, seen)\<close>: the path resolved so
      far, the names still to go, the table; the result is the path, whether no loop was
      met, and the table.\<close>
  "joinrealpath fs path [] seen = ((path, True), seen)"
| "joinrealpath fs path (name # rest) seen =
     (let newpath = path @ [name]
      in case lookup fs newpath of
           Some (Symlink target) \<Rightarrow>
             (case map_of seen newpath of
                Some (Some cached) \<Rightarrow> joinrealpath fs cached rest seen
              | Some None \<Rightarrow> ((newpath @ rest, False), seen)
              | None \<Rightarrow>
                  (case joinrealpath fs [] target (AList.update newpath None seen) of
                     ((p, False), seen') \<Rightarrow> ((p @ rest, False), seen')
                   | ((p, True), seen') \<Rightarrow>
                       joinrealpath fs p rest (AList.update newpath (Some p) seen')))
         | _ \<Rightarrow> joinrealpath fs newpath rest seen)"
  by pat_completeness auto

definition links :: "filesystem \<Rightarrow> path set" where
  \<comment> \<open>the places of the symbolic links of a file system.\<close>
  "links fs = {p \<in> fst ` set fs. \<exists>target. map_of fs p = Some (Symlink target)}"

text \<open>
  The table only grows, and a link enters it when it is first met: the links not yet in
  the table become fewer at each link followed, the names to go at every other step.
\<close>

termination joinrealpath
proof -
  have seen_grows: "fst ` set seen \<subseteq> fst ` set (snd (joinrealpath fs path rest seen))"
    if "joinrealpath_dom (fs, path, rest, seen)" for fs path rest seen
    using that
  proof (induction fs path rest seen rule: joinrealpath.pinduct)
    case (1 fs path seen)
    then show ?case by (simp add: joinrealpath.psimps)
  next
    case (2 fs path name rest seen)
    note dom = "2.hyps"
    note eq = joinrealpath.psimps(2)[OF dom]
    show ?case
    proof (cases "lookup fs (path @ [name])")
      case None
      with "2.IH"(1)[OF refl None] show ?thesis by (simp add: eq)
    next
      case (Some x)
      show ?thesis
      proof (cases x)
        case (File content)
        with Some "2.IH"(2)[OF refl Some File] show ?thesis by (simp add: eq)
      next
        case Dir
        with Some "2.IH"(3)[OF refl Some Dir] show ?thesis by (simp add: eq)
      next
        case (Symlink target)
        show ?thesis
        proof (cases "map_of seen (path @ [name])")
          case None
          obtain p ok seen' where inner:
            "joinrealpath fs [] target (AList.update (path @ [name]) None seen) = ((p, ok), seen')"
            by (metis prod.exhaust)
          from "2.IH"(4)[OF refl Some Symlink None] inner
          have grow: "fst ` set seen \<subseteq> fst ` set seen'"
            by (auto simp: dom_update)
          show ?thesis
          proof (cases ok)
            case True
            from True have okT: "ok = True" by simp
            from "2.IH"(5)[OF refl Some Symlink None inner[symmetric] refl okT]
            have "fst ` set seen' \<subseteq> fst ` set (snd (joinrealpath fs p rest
                     (AList.update (path @ [name]) (Some p) seen')))"
              by (auto simp: dom_update)
            with grow Some Symlink None inner True show ?thesis
              by (simp add: eq)
          next
            case False
            with grow Some Symlink None inner show ?thesis by (simp add: eq)
          qed
        next
          case (Some cache)
          show ?thesis
          proof (cases cache)
            case None
            with \<open>lookup fs (path @ [name]) = Some x\<close> Symlink Some show ?thesis
              by (simp add: eq)
          next
            case (Some cached)
            with "2.IH"(6)[OF refl \<open>lookup fs (path @ [name]) = Some x\<close> Symlink
                   \<open>map_of seen (path @ [name]) = Some cache\<close> Some]
                 \<open>lookup fs (path @ [name]) = Some x\<close> Symlink
                 \<open>map_of seen (path @ [name]) = Some cache\<close>
            show ?thesis by (simp add: eq)
          qed
        qed
      qed
    qed
  qed
  have link_fresh: "card (links fs - K) < card (links fs - fst ` set seen)"
    if "lookup fs x = Some (Symlink target)" and "map_of seen x = None"
      and "insert x (fst ` set seen) \<subseteq> K" for fs x target seen K
  proof -
    from that(1) have "map_of fs x = Some (Symlink target)"
      by (auto simp: lookup_def split: if_splits)
    then have "x \<in> links fs"
      by (auto simp: links_def dest: map_of_SomeD intro: rev_image_eqI)
    moreover from that(2) have "x \<notin> fst ` set seen"
      by (simp add: map_of_eq_None_iff)
    ultimately have "links fs - K \<subset> links fs - fst ` set seen"
      using that(3) by auto
    moreover have "finite (links fs - fst ` set seen)"
      by (simp add: links_def)
    ultimately show ?thesis by (rule psubset_card_mono[rotated])
  qed
  show ?thesis
  proof (relation "measures [\<lambda>(fs, path, rest, seen). card (links fs - fst ` set seen),
                             \<lambda>(fs, path, rest, seen). length rest]", goal_cases)
    case 1
    show ?case by simp
  next
    case (2 fs path name rest seen x)
    then show ?case by simp
  next
    case (3 fs path name rest seen x x2 x1)
    then show ?case by simp
  next
    case (4 fs path name rest seen x x2)
    then show ?case by simp
  next
    case (5 fs path name rest seen x x2 x3)
    then have "card (links fs - fst ` set (AList.update x None seen))
                 < card (links fs - fst ` set seen)"
      by (intro link_fresh[of fs x x3]) (auto simp: dom_update)
    then show ?case by simp
  next
    case (6 fs path name rest seen x x2 x3 xa y xb ya)
    from 6 have lk: "lookup fs x = Some (Symlink x3)" by simp
    from 6 have fresh: "map_of seen x = None" by simp
    from 6 have dom: "joinrealpath_dom (fs, [], x3, AList.update x None seen)" by simp
    from 6 have y: "y = snd (joinrealpath fs [] x3 (AList.update x None seen))"
      by (metis snd_conv)
    from seen_grows[OF dom] have "fst ` set (AList.update x None seen) \<subseteq> fst ` set y"
      by (simp add: y)
    then have "insert x (fst ` set seen) \<subseteq> fst ` set (AList.update x (Some xb) y)"
      by (auto simp: dom_update)
    from link_fresh[OF lk fresh this] show ?case by simp
  next
    case (7 fs path name rest seen x x2 x3 x2a x2b)
    then show ?case by simp
  qed
qed

definition resolve :: "filesystem \<Rightarrow> path \<Rightarrow> error + path" where
  \<comment> \<open>\<open>Path.resolve()\<close>: the real path; a loop of links raises.\<close>
  "resolve fs p =
     (case fst (joinrealpath fs [] p []) of
        (q, True) \<Rightarrow> Inr q
      | (q, False) \<Rightarrow> Inl SymlinkLoopError)"

definition os_symlink :: "filesystem \<Rightarrow> path \<Rightarrow> path \<Rightarrow> (error + unit) \<times> filesystem" where
  \<comment> \<open>\<open>os.symlink(target, dst)\<close>: refuses a place that holds any entry, a dangling
      link included.\<close>
  "os_symlink fs target dst =
     (case locate fs dst of
        Inl e \<Rightarrow> (Inl e, fs)
      | Inr q \<Rightarrow>
          if lookup fs q = None then (Inr (), AList.update q (Symlink target) fs)
          else (Inl FileExistsError, fs))"

definition open_write :: "filesystem \<Rightarrow> path \<Rightarrow> error + (path \<times> string)" where
  \<comment> \<open>opening a file for writing or appending, links followed: the place of the file
      and what it stores now (nothing, when the open creates it).\<close>
  "open_write fs p =
     (case walk fs MAXSYMLINKS [] p of
        Inl e \<Rightarrow> Inl e
      | Inr q \<Rightarrow>
          (case lookup fs q of
             None \<Rightarrow> Inr (q, [])
           | Some (File content) \<Rightarrow> Inr (q, content)
           | Some Dir \<Rightarrow> Inl IsADirectoryError
           | Some (Symlink t) \<Rightarrow> Inl SymlinkLoopError))"

definition samefile :: "filesystem \<Rightarrow> path \<Rightarrow> path \<Rightarrow> bool" where
  \<comment> \<open>\<open>shutil._samefile\<close>: both paths lead to one existing entry.\<close>
  "samefile fs a b =
     (case (stat fs a, stat fs b) of (Inr (q, x), Inr (r, y)) \<Rightarrow> q = r | _ \<Rightarrow> False)"

definition copyfile :: "filesystem \<Rightarrow> path \<Rightarrow> path \<Rightarrow> (error + unit) \<times> filesystem" where
  "copyfile fs src dst =
     (if samefile fs src dst then (Inl SameFileError, fs)
      else case open_read fs src of
             Inl e \<Rightarrow> (Inl e, fs)
           | Inr content \<Rightarrow>
               (case open_write fs dst of
                  Inl e \<Rightarrow> (Inl e, fs)
                | Inr (q, old) \<Rightarrow> (Inr (), AList.update q (File content) fs)))"

definition copy2 :: "filesystem \<Rightarrow> path \<Rightarrow> path \<Rightarrow> (error + unit) \<times> filesystem" where
  \<comment> \<open>\<open>shutil.copy2(src, dst)\<close>: a destination that is a directory receives the copy
      inside it, under the name of the source. Metadata is not modelled.\<close>
  "copy2 fs src dst =
     copyfile fs src (if is_dir fs dst \<and> src \<noteq> [] then dst @ [last src] else dst)"

definition only_new_dirs :: "filesystem \<Rightarrow> filesystem \<Rightarrow> bool" where
  \<comment> \<open>the second file system is the first one but for directories made where nothing
      was: no entry is removed, none is changed.\<close>
  "only_new_dirs fs fs' =
     (\<forall>p. lookup fs' p \<noteq> lookup fs p \<longrightarrow> lookup fs p = None \<and> lookup fs' p = Some Dir)"

subsection \<open>The script\<close>

datatype OperatingSystem = Linux | MacOS | Windows

definition os_value :: "OperatingSystem \<Rightarrow> string" where
  "os_value os_name =
     (case os_name of Linux \<Rightarrow> ''linux'' | MacOS \<Rightarrow> ''macos'' | Windows \<Rightarrow> ''windows'')"

definition linesep :: "OperatingSystem \<Rightarrow> string" where
  \<comment> \<open>\<open>os.linesep\<close>\<close>
  "linesep host = (if host = Windows then [CR, LF] else [LF])"

definition text_write :: "OperatingSystem \<Rightarrow> string \<Rightarrow> string" where
  \<comment> \<open>what \<open>f.write(s)\<close> stores through a text stream.\<close>
  "text_write host s = concat (map (\<lambda>c. if c = LF then linesep host else [c]) s)"

definition APPEND_MODE_TARGET :: string where
  "APPEND_MODE_TARGET = ''>>>append<<<''"

definition detect_os :: "string \<Rightarrow> error + OperatingSystem" where
  \<comment> \<open>the argument is what \<open>platform.system()\<close> returns.\<close>
  "detect_os platform_system =
     (let system = lower platform_system
      in if system = ''linux'' then Inr Linux
         else if system = ''darwin'' then Inr MacOS
         else if system = ''windows'' then Inr Windows
         else Inl (UnsupportedOperatingSystem system))"

definition should_append :: "filesystem \<Rightarrow> path \<Rightarrow> error + bool" where
  "should_append fs file_path =
     (case open_read fs file_path of
        Inl e \<Rightarrow> Inl e
      | Inr stored \<Rightarrow>
          (let first_line = fst (readline (universal_newlines stored));
               processed_line = join [] (split (lower first_line))
           in Inr (contains APPEND_MODE_TARGET processed_line)))"

definition read_file_content :: "filesystem \<Rightarrow> path \<Rightarrow> bool \<Rightarrow> error + string" where
  "read_file_content fs file_path skip_first_line =
     (case open_read fs file_path of
        Inl e \<Rightarrow> Inl e
      | Inr stored \<Rightarrow>
          Inr (if skip_first_line then snd (readline (universal_newlines stored))
               else universal_newlines stored))"

datatype report = NothingToAppend | UpToDate | Appended nat

definition append_to_file ::
  "OperatingSystem \<Rightarrow> filesystem \<Rightarrow> path \<Rightarrow> path \<Rightarrow> (error + report) \<times> filesystem" where
  \<comment> \<open>the first argument is the platform the script runs on, which fixes the line
      separator of text streams; the report says which of the three messages is printed.\<close>
  "append_to_file host fs source destination =
     (case mkdir fs (parent destination) True True of
        (Inl e, fs1) \<Rightarrow> (Inl e, fs1)
      | (Inr u, fs1) \<Rightarrow>
     (case read_file_content fs1 source True of
        Inl e \<Rightarrow> (Inl e, fs1)
      | Inr content_to_append \<Rightarrow>
     (let source_lines = filter (\<lambda>line. strip line \<noteq> []) (splitlines content_to_append)
      in if source_lines = [] then (Inr NothingToAppend, fs1)
         else
     (case (if exists fs1 destination
            then (case read_file_content fs1 destination False of
                    Inl e \<Rightarrow> Inl e
                  | Inr existing_content \<Rightarrow> Inr (set (splitlines existing_content)))
            else Inr {}) of
        Inl e \<Rightarrow> (Inl e, fs1)
      | Inr existing_lines_set \<Rightarrow>
     (let lines_to_write = filter (\<lambda>line. line \<notin> existing_lines_set) source_lines
      in if lines_to_write = [] then (Inr UpToDate, fs1)
         else
     (case open_write fs1 destination of
        Inl e \<Rightarrow> (Inl e, fs1)
      | Inr (q, stored) \<Rightarrow>
          (let separator = (if stored \<noteq> [] \<and> last stored \<noteq> LF then [LF] else []);
               content_to_write = join [LF] lines_to_write;
               final = (if endswith content_to_append [LF] then [LF] else [])
           in (Inr (Appended (length lines_to_write)),
               AList.update q
                 (File (stored @ text_write host (separator @ content_to_write @ final)))
                 fs1))))))))"

definition create_symlink ::
  "filesystem \<Rightarrow> path \<Rightarrow> path \<Rightarrow> bool \<Rightarrow> (error + unit) \<times> filesystem" where
  "create_symlink fs source destination force =
     (case mkdir fs (parent destination) True True of
        (Inl e, fs1) \<Rightarrow> (Inl e, fs1)
      | (Inr u, fs1) \<Rightarrow>
     (case (if force \<and> exists fs1 destination
            then (if is_symlink fs1 destination \<or> is_file fs1 destination
                  then unlink fs1 destination
                  else if is_dir fs1 destination then rmtree fs1 destination
                  else (Inr (), fs1))
            else (Inr (), fs1)) of
        (Inl e, fs2) \<Rightarrow> (Inl e, fs2)
      | (Inr u, fs2) \<Rightarrow>
     (case resolve fs2 source of
        Inl e \<Rightarrow> (Inl e, fs2)
      | Inr target \<Rightarrow> os_symlink fs2 target destination)))"

definition copy_file :: "filesystem \<Rightarrow> path \<Rightarrow> path \<Rightarrow> (error + unit) \<times> filesystem" where
  "copy_file fs source destination =
     (case mkdir fs (parent destination) True True of
        (Inl e, fs1) \<Rightarrow> (Inl e, fs1)
      | (Inr u, fs1) \<Rightarrow> copy2 fs1 source destination)"

definition rglob :: "filesystem \<Rightarrow> path \<Rightarrow> path list" where
  \<comment> \<open>\<open>os_dir.rglob("*")\<close>: every entry below the directory, reached through
      directories only, in the order the file system reports them.\<close>
  "rglob fs d =
     (case stat fs d of
        Inr (q, Dir) \<Rightarrow>
          map (\<lambda>r. d @ drop (length q) r)
            (filter (\<lambda>r. strict_prefix q r
                          \<and> list_all (\<lambda>k. lookup fs (take k r) = Some Dir) [length q ..< length r])
               (remdups (map fst fs)))
      | _ \<Rightarrow> [])"

fun install_each ::
  "OperatingSystem \<Rightarrow> path \<Rightarrow> path \<Rightarrow> path list \<Rightarrow> filesystem \<Rightarrow> (error + unit) \<times> filesystem"
where
  \<comment> \<open>the loop over the files of the source directory; the first exception ends it.\<close>
  "install_each os_name os_dir home_dir [] fs = (Inr (), fs)"
| "install_each os_name os_dir home_dir (source_file # more) fs =
     (if is_file fs source_file then
        (let rel_path = drop (length os_dir) source_file;
             destination = home_dir @ rel_path
         in case should_append fs source_file of
              Inl e \<Rightarrow> (Inl e, fs)
            | Inr True \<Rightarrow>
                (case append_to_file os_name fs source_file destination of
                   (Inl e, fs') \<Rightarrow> (Inl e, fs')
                 | (Inr r, fs') \<Rightarrow> install_each os_name os_dir home_dir more fs')
            | Inr False \<Rightarrow>
                (case (if os_name \<in> {Linux, MacOS}
                       then create_symlink fs source_file destination True
                       else copy_file fs source_file destination) of
                   (Inl e, fs') \<Rightarrow> (Inl e, fs')
                 | (Inr u, fs') \<Rightarrow> install_each os_name os_dir home_dir more fs'))
      else install_each os_name os_dir home_dir more fs)"

datatype outcome = AbortedByUser | NoDotfilesFound | InstallationComplete

definition install_dotfiles ::
  "filesystem \<Rightarrow> path \<Rightarrow> path \<Rightarrow> string option \<Rightarrow> OperatingSystem
     \<Rightarrow> (error + outcome) \<times> filesystem" where
  \<comment> \<open>\<open>script_dir\<close> is the root of the repository, \<open>home_dir\<close> is \<open>Path.home()\<close>,
      \<open>answer\<close> is the line \<open>input()\<close> returns, \<open>None\<close> at the end of the input.
      The files to install are those the source directory holds when the loop starts.\<close>
  "install_dotfiles fs script_dir home_dir answer os_name =
     (let os_dir = script_dir @ [os_value os_name]
      in case answer of
           None \<Rightarrow> (Inl EOFError, fs)
         | Some line \<Rightarrow>
             if line \<noteq> ''y'' then (Inr AbortedByUser, fs)
             else if \<not> exists fs os_dir then (Inr NoDotfilesFound, fs)
             else (case install_each os_name os_dir home_dir (rglob fs os_dir) fs of
                     (Inl e, fs') \<Rightarrow> (Inl e, fs')
                   | (Inr u, fs') \<Rightarrow> (Inr InstallationComplete, fs')))"

definition main ::
  "filesystem \<Rightarrow> string \<Rightarrow> path \<Rightarrow> path \<Rightarrow> string option \<Rightarrow> (error + outcome) \<times> filesystem" where
  "main fs platform_system script_dir home_dir answer =
     (case detect_os platform_system of
        Inl e \<Rightarrow> (Inl e, fs)
      | Inr os_name \<Rightarrow> install_dotfiles fs script_dir home_dir answer os_name)"

subsection \<open>Concrete file systems\<close>

text \<open>
  The inputs at which the theorems below are evaluated: a repository \<open>/repo\<close> with one
  directory per platform, and a home directory \<open>/home/u\<close>.
\<close>

definition repo_files :: filesystem where
  "repo_files =
     [([''repo''], Dir),
      ([''repo'', ''linux''], Dir),
      ([''repo'', ''linux'', ''.vimrc''], File ''set number\<newline>''),
      ([''repo'', ''linux'', ''.bashrc''],
         File ''>>> APPEND <<<\<newline>export PATH=/a\<newline>\<newline>alias ll=ls\<newline>''),
      ([''repo'', ''linux'', ''.profile''],
         File ''>>> APPEND <<<\<newline>export PATH=/a\<newline>export PATH=/a\<newline>''),
      ([''repo'', ''linux'', ''.config''], Dir),
      ([''repo'', ''linux'', ''.config'', ''aliases''], File ''>>> APPEND <<<\<newline>  \<newline>\<newline>''),
      ([''repo'', ''windows''], Dir),
      ([''repo'', ''windows'', ''.gitconfig''], File ''[core]\<newline>''),
      ([''home''], Dir),
      ([''home'', ''u''], Dir)]"

definition home_with_dangling_link :: filesystem where
  \<comment> \<open>\<open>/home/u/.vimrc\<close> is a symbolic link whose target does not exist.\<close>
  "home_with_dangling_link = repo_files @ [([''home'', ''u'', ''.vimrc''], Symlink [''old'', ''.vimrc''])]"

definition home_with_directories :: filesystem where
  \<comment> \<open>\<open>/home/u/.gitconfig\<close> and \<open>/home/u/.bashrc\<close> are directories.\<close>
  "home_with_directories =
     repo_files @ [([''home'', ''u'', ''.gitconfig''], Dir), ([''home'', ''u'', ''.bashrc''], Dir),
                   ([''home'', ''u'', ''.config''], Dir), ([''home'', ''u'', ''.config'', ''aliases''], Dir)]"

definition home_with_bashrc :: filesystem where
  \<comment> \<open>\<open>/home/u/.bashrc\<close> holds one line, without a newline at its end.\<close>
  "home_with_bashrc = repo_files @ [([''home'', ''u'', ''.bashrc''], File ''export PATH=/a'')]"

section \<open>Properties\<close>

subsection \<open>Strings\<close>

lemma split_from_concat:
  "concat (split_from cur s) = cur @ filter (\<lambda>c. \<not> isspace c) s"
  by (induction cur s rule: split_from.induct) simp_all

lemma join_empty: "join [] xs = concat xs"
  by (induction "[] :: string" xs rule: join.induct) simp_all

lemma join_split: "join [] (split s) = filter (\<lambda>c. \<not> isspace c) s"
  by (simp add: join_empty split_def split_from_concat)

lemma contains_sublist: "contains sub s = sublist sub s"
  by (induction s) (auto simp: sublist_Cons_right)

subsection \<open>The file classifier\<close>

text \<open>
  C1, as stated: \<open>should_append\<close> is true exactly when the first line, whitespace removed
  and lowercased, equals the marker. The source tests \<open>APPEND_MODE_TARGET in
  processed_line\<close>: a first line \<open># >>> APPEND <<<\<close> is classified as append mode though
  its normal form \<open>#>>>append<<<\<close> is not the marker.
\<close>

theorem should_append_equals_marker_counterexample:
  "should_append [([''f''], File ''# >>> APPEND <<<\<newline>export A=1\<newline>'')] [''f''] = Inr True
   \<and> filter (\<lambda>c. \<not> isspace c) (lower ''# >>> APPEND <<<\<newline>'') \<noteq> ''>>>append<<<''"
  by code_simp

text \<open>
  C1, amended: for every file that can be opened, \<open>should_append\<close> is true exactly when
  the first line, whitespace removed and lowercased, contains the marker as a substring;
  a file that cannot be opened raises the error of the open.
\<close>

theorem should_append_contains_marker:
  "should_append fs file_path =
     (case open_read fs file_path of
        Inl e \<Rightarrow> Inl e
      | Inr stored \<Rightarrow>
          Inr (\<exists>before after.
                 filter (\<lambda>c. \<not> isspace c) (lower (fst (readline (universal_newlines stored))))
                   = before @ APPEND_MODE_TARGET @ after))"
  by (simp add: should_append_def join_split contains_sublist sublist_def split: sum.split)

subsection \<open>Path resolution and directories\<close>

lemma lookup_update:
  "lookup (AList.update q x fs) p = (if p = [] then Some Dir else if p = q then Some x else lookup fs p)"
  by (simp add: lookup_def update_conv')

lemma walk_mono:
  assumes "walk fs n cur rest = Inr r"
    and "\<forall>p. lookup fs' p \<noteq> lookup fs p \<longrightarrow>
            (lookup fs p = None \<or> (\<exists>c. lookup fs p = Some (File c)))
            \<and> (lookup fs' p = Some Dir \<or> (\<exists>c. lookup fs' p = Some (File c)))"
  shows "walk fs' n cur rest = Inr r"
  using assms
proof (induction fs n cur rest rule: walk.induct)
  case (1 fs n cur)
  then show ?case by simp
next
  case (2 fs n cur c rest)
  note run = "2.prems"(1) and diff = "2.prems"(2)
  show ?case
  proof (cases "lookup fs' (cur @ [c]) = lookup fs (cur @ [c])")
    case True
    show ?thesis
    proof (cases "lookup fs (cur @ [c])")
      case None
      with True run show ?thesis by (simp split: if_splits)
    next
      case (Some x)
      show ?thesis
      proof (cases x)
        case (File content)
        with Some True run show ?thesis by (simp split: if_splits)
      next
        case Dir
        with Some True run "2.IH"(1) diff show ?thesis by simp
      next
        case (Symlink t)
        with Some True run "2.IH"(2) diff show ?thesis by (simp split: if_splits)
      qed
    qed
  next
    case False
    with diff have
      old: "lookup fs (cur @ [c]) = None \<or> (\<exists>x. lookup fs (cur @ [c]) = Some (File x))" and
      new: "lookup fs' (cur @ [c]) = Some Dir \<or> (\<exists>x. lookup fs' (cur @ [c]) = Some (File x))"
      by blast+
    from old run have "rest = []" "r = cur @ [c]"
      by (auto split: if_splits)
    with new show ?thesis by auto
  qed
qed

lemma walk_snoc:
  "walk fs n cur xs = Inr d \<Longrightarrow> lookup fs d = Some Dir \<Longrightarrow>
   \<forall>t. lookup fs (d @ [c]) \<noteq> Some (Symlink t) \<Longrightarrow>
   walk fs n cur (xs @ [c]) = Inr (d @ [c])"
proof (induction fs n cur xs rule: walk.induct)
  case (1 fs n cur)
  then show ?case by (cases "lookup fs (cur @ [c])") (auto split: entry.splits)
next
  case (2 fs n cur x rest)
  show ?case
  proof (cases "lookup fs (cur @ [x])")
    case None
    with "2.prems" show ?thesis by (simp split: if_splits)
  next
    case (Some e)
    show ?thesis
    proof (cases e)
      case (File content)
      with Some "2.prems" show ?thesis by (simp split: if_splits)
    next
      case Dir
      with Some "2.prems" "2.IH"(1) show ?thesis by simp
    next
      case (Symlink t)
      with Some "2.prems" "2.IH"(2) show ?thesis by (simp split: if_splits)
    qed
  qed
qed

lemma walk_snoc_exists:
  "walk fs n cur (xs @ [c]) = Inr r \<Longrightarrow> lookup fs r \<noteq> None \<Longrightarrow> lookup fs cur = Some Dir \<Longrightarrow>
   \<exists>d. walk fs n cur xs = Inr d \<and> lookup fs d = Some Dir \<and> lookup fs (d @ [c]) \<noteq> None"
proof (induction fs n cur xs rule: walk.induct)
  case (1 fs n cur)
  then show ?case by (cases "lookup fs (cur @ [c])") (auto split: entry.splits if_splits)
next
  case (2 fs n cur x rest)
  show ?case
  proof (cases "lookup fs (cur @ [x])")
    case None
    with "2.prems" show ?thesis by (simp split: if_splits)
  next
    case (Some e)
    show ?thesis
    proof (cases e)
      case (File content)
      with Some "2.prems" show ?thesis by (simp split: if_splits)
    next
      case Dir
      with Some "2.prems" "2.IH"(1) show ?thesis by simp
    next
      case (Symlink t)
      have root: "lookup fs [] = Some Dir" by (simp add: lookup_def)
      from Symlink Some "2.prems" have "n \<noteq> 0" "walk fs (n - 1) [] ((t @ rest) @ [c]) = Inr r"
        by (simp_all split: if_splits)
      from "2.IH"(2)[OF Some Symlink this "2.prems"(2) root] Symlink Some \<open>n \<noteq> 0\<close>
      show ?thesis by simp
    qed
  qed
qed

lemma lookup_root [simp]: "lookup fs [] = Some Dir"
  by (simp add: lookup_def)

lemma is_dir_walk:
  "is_dir fs p = (\<exists>q. walk fs MAXSYMLINKS [] p = Inr q \<and> lookup fs q = Some Dir)"
  by (auto simp: is_dir_def stat_def split: sum.splits option.splits entry.splits)

lemma os_mkdir_cases:
  assumes "os_mkdir fs p = (r, fs')"
  shows "(\<exists>e. r = Inl e \<and> fs' = fs) \<or>
         (r = Inr () \<and> p \<noteq> [] \<and> (\<exists>d. walk fs MAXSYMLINKS [] (butlast p) = Inr d \<and> lookup fs d = Some Dir
                \<and> lookup fs (d @ [last p]) = None \<and> fs' = AList.update (d @ [last p]) Dir fs))"
  using assms
  by (auto simp: os_mkdir_def locate_def stat_def parent_def
           split: sum.splits option.splits entry.splits if_splits prod.splits)

lemma os_mkdir_is_dir:
  assumes "os_mkdir fs p = (Inr u, fs')"
  shows "is_dir fs' p"
proof -
  from os_mkdir_cases[OF assms] obtain d where
    p: "p \<noteq> []" and w: "walk fs MAXSYMLINKS [] (butlast p) = Inr d" and d: "lookup fs d = Some Dir"
    and n: "lookup fs (d @ [last p]) = None" and fs': "fs' = AList.update (d @ [last p]) Dir fs"
    by auto
  have diff: "\<forall>x. lookup fs' x \<noteq> lookup fs x \<longrightarrow>
            (lookup fs x = None \<or> (\<exists>c. lookup fs x = Some (File c)))
            \<and> (lookup fs' x = Some Dir \<or> (\<exists>c. lookup fs' x = Some (File c)))"
    using n by (auto simp: fs' lookup_update)
  have w': "walk fs' MAXSYMLINKS [] (butlast p) = Inr d"
    by (rule walk_mono[OF w diff])
  have d': "lookup fs' d = Some Dir"
    using d n by (auto simp: fs' lookup_update)
  have q': "lookup fs' (d @ [last p]) = Some Dir"
    by (simp add: fs' lookup_update)
  have "walk fs' MAXSYMLINKS [] (butlast p @ [last p]) = Inr (d @ [last p])"
    by (rule walk_snoc[OF w' d']) (simp add: q')
  with p q' show ?thesis by (auto simp: is_dir_walk)
qed

lemma mkdir_is_dir:
  "mkdir fs p parents exist_ok = (Inr u, fs') \<Longrightarrow> is_dir fs' p"
proof (induction fs p parents exist_ok arbitrary: fs' rule: mkdir.induct)
  case (1 fs p parents exist_ok)
  obtain r fs1 where om: "os_mkdir fs p = (r, fs1)" by force
  show ?case
  proof (cases r)
    case (Inr u')
    with om "1.prems" have "fs' = fs1" by (simp add: mkdir.simps)
    with om Inr os_mkdir_is_dir show ?thesis by blast
  next
    case (Inl e)
    show ?thesis
    proof (cases "e = FileNotFoundError")
      case True
      with om Inl "1.prems" have go: "parents" "parent p \<noteq> p"
        by (auto simp: mkdir.simps split: if_splits)
      obtain r2 fs2 where rec: "mkdir fs1 (parent p) True True = (r2, fs2)" by force
      with om Inl True go "1.prems" obtain u2 where r2: "r2 = Inr u2"
        by (cases r2) (auto simp: mkdir.simps)
      with om Inl True go "1.prems" rec have fin: "mkdir fs2 p False exist_ok = (Inr u, fs')"
        by (simp add: mkdir.simps)
      show ?thesis
        using "1.IH"(2)[OF om[symmetric] _ _ _ rec[symmetric] _ fin] Inl True go r2
        by simp
    next
      case False
      with om Inl "1.prems" show ?thesis
        by (auto simp: mkdir.simps split: if_splits)
    qed
  qed
qed

lemma os_mkdir_existing:
  assumes "is_dir fs p"
  shows "os_mkdir fs p = (Inl FileExistsError, fs)"
proof (cases "p = []")
  case True
  then show ?thesis by (simp add: os_mkdir_def locate_def)
next
  case False
  then have p: "p = butlast p @ [last p]" by simp
  from assms obtain q where "walk fs MAXSYMLINKS [] p = Inr q" "lookup fs q = Some Dir"
    by (auto simp: is_dir_walk)
  then have "walk fs MAXSYMLINKS [] (butlast p @ [last p]) = Inr q" "lookup fs q \<noteq> None"
    using p by simp_all
  from walk_snoc_exists[OF this lookup_root] obtain d where
    "walk fs MAXSYMLINKS [] (butlast p) = Inr d" "lookup fs d = Some Dir"
    "lookup fs (d @ [last p]) \<noteq> None"
    by blast
  with False show ?thesis
    by (auto simp: os_mkdir_def locate_def stat_def parent_def)
qed

lemma mkdir_existing:
  "is_dir fs p \<Longrightarrow> mkdir fs p parents True = (Inr (), fs)"
  by (simp add: mkdir.simps os_mkdir_existing)

lemma only_new_dirs_trans:
  "only_new_dirs a b \<Longrightarrow> only_new_dirs b c \<Longrightarrow> only_new_dirs a c"
  unfolding only_new_dirs_def by (metis option.distinct(1))

lemma os_mkdir_only_new_dirs:
  "os_mkdir fs p = (r, fs') \<Longrightarrow> only_new_dirs fs fs'"
  by (drule os_mkdir_cases) (auto simp: only_new_dirs_def lookup_update split: if_splits)

lemma mkdir_only_new_dirs:
  "mkdir fs p parents exist_ok = (r, fs') \<Longrightarrow> only_new_dirs fs fs'"
proof (induction fs p parents exist_ok arbitrary: r fs' rule: mkdir.induct)
  case (1 fs p parents exist_ok)
  obtain r1 fs1 where om: "os_mkdir fs p = (r1, fs1)" by force
  note step = os_mkdir_only_new_dirs[OF om]
  show ?case
  proof (cases r1)
    case (Inr u')
    with om "1.prems" have "fs' = fs1" by (simp add: mkdir.simps)
    with step show ?thesis by simp
  next
    case (Inl e)
    show ?thesis
    proof (cases "e = FileNotFoundError \<and> parents \<and> parent p \<noteq> p")
      case True
      obtain r2 fs2 where rec: "mkdir fs1 (parent p) True True = (r2, fs2)" by force
      have s2: "only_new_dirs fs1 fs2"
        using "1.IH"(1)[OF om[symmetric] Inl _ _ rec] True by simp
      show ?thesis
      proof (cases r2)
        case (Inl e2)
        with om \<open>r1 = Inl e\<close> True rec "1.prems" have "fs' = fs2"
          by (simp add: mkdir.simps)
        with step s2 show ?thesis by (blast intro: only_new_dirs_trans)
      next
        case (Inr u2)
        with om \<open>r1 = Inl e\<close> True rec "1.prems" have fin: "mkdir fs2 p False exist_ok = (r, fs')"
          by (simp add: mkdir.simps)
        have "only_new_dirs fs2 fs'"
          using "1.IH"(2)[OF om[symmetric] \<open>r1 = Inl e\<close> _ _ rec[symmetric] Inr fin] True by simp
        with step s2 show ?thesis by (blast intro: only_new_dirs_trans)
      qed
    next
      case False
      with om Inl "1.prems" have "fs' = fs1"
        by (auto simp: mkdir.simps split: if_splits)
      with step show ?thesis by simp
    qed
  qed
qed

lemma walk_only_new_dirs:
  "walk fs n cur rest = Inr r \<Longrightarrow> only_new_dirs fs fs' \<Longrightarrow> walk fs' n cur rest = Inr r"
  by (erule walk_mono) (auto simp: only_new_dirs_def)

lemma LF_not_CR [simp]: "LF \<noteq> CR" "CR \<noteq> LF"
  by (simp_all add: LF_def CR_def)

lemma islinebreak_LF [simp]: "islinebreak LF"
  by (simp add: islinebreak_def LF_def)

lemma islinebreak_CR [simp]: "islinebreak CR"
  by (simp add: islinebreak_def CR_def)

subsection \<open>Universal newlines\<close>

lemma universal_newlines_Cons:
  "c \<noteq> CR \<Longrightarrow> universal_newlines (c # s) = c # universal_newlines s"
  by (cases s) simp_all

lemma universal_newlines_no_CR: "CR \<notin> set (universal_newlines s)"
  by (induction s rule: universal_newlines.induct) auto

lemma universal_newlines_id: "CR \<notin> set s \<Longrightarrow> universal_newlines s = s"
  by (induction s) (auto simp: universal_newlines_Cons)

lemma universal_newlines_append:
  "a = [] \<or> last a \<noteq> CR \<or> b = [] \<or> hd b \<noteq> LF \<Longrightarrow>
   universal_newlines (a @ b) = universal_newlines a @ universal_newlines b"
proof (induction a rule: universal_newlines.induct)
  case 1
  then show ?case by simp
next
  case (2 c)
  then show ?case by (cases b) auto
next
  case (3 c d cs)
  then show ?case by (auto split: if_splits)
qed

lemma universal_newlines_last:
  "s \<noteq> [] \<Longrightarrow> last s = LF \<or> last s = CR \<Longrightarrow>
   universal_newlines s \<noteq> [] \<and> last (universal_newlines s) = LF"
  by (induction s rule: universal_newlines.induct) (auto split: if_splits)

subsection \<open>Text written\<close>

lemma text_write_posix: "host \<noteq> Windows \<Longrightarrow> text_write host s = s"
  by (induction s) (simp_all add: text_write_def linesep_def)

lemma text_write_Windows_hd:
  "s \<noteq> [] \<Longrightarrow> text_write Windows s \<noteq> [] \<and> hd (text_write Windows s) \<noteq> LF"
  by (cases s) (auto simp: text_write_def linesep_def)

lemma text_write_Nil [simp]: "text_write host [] = []"
  by (simp add: text_write_def)

lemma text_write_Cons:
  "text_write host (c # s) = (if c = LF then linesep host else [c]) @ text_write host s"
  by (simp add: text_write_def)

lemma universal_newlines_text_write:
  "CR \<notin> set s \<Longrightarrow> universal_newlines (text_write host s) = s"
proof (induction s)
  case Nil
  then show ?case by simp
next
  case (Cons c s)
  then have ih: "universal_newlines (text_write host s) = s" by simp
  show ?case
  proof (cases "c = LF")
    case True
    then show ?thesis
      using ih by (cases "host = Windows") (auto simp: text_write_Cons linesep_def universal_newlines_Cons)
  next
    case False
    with Cons.prems show ?thesis
      using ih by (auto simp: text_write_Cons universal_newlines_Cons)
  qed
qed

lemma read_back_written:
  assumes "CR \<notin> set x"
  shows "universal_newlines (a @ text_write host x) =
           (if host \<noteq> Windows \<and> a \<noteq> [] \<and> last a = CR \<and> x \<noteq> [] \<and> hd x = LF
            then universal_newlines a @ tl x else universal_newlines a @ x)"
proof (cases "host \<noteq> Windows \<and> a \<noteq> [] \<and> last a = CR \<and> x \<noteq> [] \<and> hd x = LF")
  case True
  then obtain a' x' where a: "a = a' @ [CR]" and x: "x = LF # x'"
    by (metis append_butlast_last_id list.collapse)
  from assms x have x': "CR \<notin> set x'" by simp
  have "universal_newlines (a' @ CR # LF # x') = universal_newlines a' @ universal_newlines (CR # LF # x')"
    by (rule universal_newlines_append) simp
  moreover have "universal_newlines (a' @ [CR]) = universal_newlines a' @ universal_newlines [CR]"
    by (rule universal_newlines_append) simp
  ultimately show ?thesis
    unfolding if_P[OF True] using True x' by (simp add: a x text_write_posix universal_newlines_id)
next
  case False
  have "universal_newlines (a @ text_write host x) =
          universal_newlines a @ universal_newlines (text_write host x)"
  proof (cases "host = Windows")
    case True
    show ?thesis
    proof (cases "x = []")
      case True
      then show ?thesis by simp
    next
      case False
      with text_write_Windows_hd[OF False] True show ?thesis
        by (intro universal_newlines_append) simp
    qed
  next
    case nw: False
    with False show ?thesis
      by (intro universal_newlines_append) (auto simp: text_write_posix)
  qed
  then show ?thesis
    unfolding if_not_P[OF False] using assms by (simp add: universal_newlines_text_write)
qed

subsection \<open>Lines\<close>

lemma splitlines_from_Cons:
  "CR \<notin> set (c # cs) \<Longrightarrow>
   splitlines_from cur (c # cs) =
     (if islinebreak c then cur # splitlines_from [] cs else splitlines_from (cur @ [c]) cs)"
  by (cases cs) auto

lemma splitlines_from_line:
  "\<forall>c\<in>set l. \<not> islinebreak c \<Longrightarrow> CR \<notin> set rest \<Longrightarrow>
   splitlines_from cur (l @ rest) = splitlines_from (cur @ l) rest"
proof (induction l arbitrary: cur)
  case Nil
  then show ?case by simp
next
  case (Cons c l)
  then have "CR \<notin> set (c # l @ rest)" by auto
  from splitlines_from_Cons[OF this] Cons show ?case by simp
qed

lemma splitlines_from_LF:
  "CR \<notin> set a \<Longrightarrow> CR \<notin> set b \<Longrightarrow>
   splitlines_from cur (a @ LF # b) = splitlines_from cur (a @ [LF]) @ splitlines_from [] b"
proof (induction a arbitrary: cur)
  case Nil
  then have "CR \<notin> set (LF # b)" by simp
  from splitlines_from_Cons[OF this] show ?case by simp
next
  case (Cons c a)
  then have 1: "CR \<notin> set (c # a @ LF # b)" and 2: "CR \<notin> set (c # a @ [LF])" by auto
  show ?case
    using splitlines_from_Cons[OF 1] splitlines_from_Cons[OF 2] Cons by simp
qed

lemma splitlines_from_more:
  "CR \<notin> set t \<Longrightarrow> set (splitlines_from cur t) \<subseteq> set (splitlines_from cur (t @ [LF]))"
proof (induction t arbitrary: cur)
  case Nil
  then show ?case by simp
next
  case (Cons c t)
  then have 1: "CR \<notin> set (c # t)" and 2: "CR \<notin> set (c # t @ [LF])" by auto
  show ?case
    using splitlines_from_Cons[OF 1] splitlines_from_Cons[OF 2] Cons by auto
qed

lemma splitlines_from_no_linebreak:
  "\<forall>c\<in>set cur. \<not> islinebreak c \<Longrightarrow>
   \<forall>l\<in>set (splitlines_from cur s). \<forall>c\<in>set l. \<not> islinebreak c"
proof (induction cur s rule: splitlines_from.induct)
  case (1 cur)
  then show ?case by simp
next
  case (2 cur c)
  then show ?case by simp
next
  case (3 cur c d cs)
  show ?case
  proof (cases "c = CR \<and> d = LF")
    case True
    have "\<forall>l\<in>set (splitlines_from [] cs). \<forall>c\<in>set l. \<not> islinebreak c"
      by (rule "3.IH"(1)[OF True]) simp
    moreover have "splitlines_from cur (c # d # cs) = cur # splitlines_from [] cs"
      by (subst splitlines_from.simps(3)) (simp only: if_P[OF True])
    ultimately show ?thesis using "3.prems" by simp
  next
    case False
    show ?thesis
    proof (cases "islinebreak c")
      case True
      have "\<forall>l\<in>set (splitlines_from [] (d # cs)). \<forall>c\<in>set l. \<not> islinebreak c"
        by (rule "3.IH"(2)[OF False True]) simp
      moreover have "splitlines_from cur (c # d # cs) = cur # splitlines_from [] (d # cs)"
        by (subst splitlines_from.simps(3)) (simp only: if_not_P[OF False] if_P[OF True])
      ultimately show ?thesis using "3.prems" by (simp del: splitlines_from.simps)
    next
      case nb: False
      have "\<forall>l\<in>set (splitlines_from (cur @ [c]) (d # cs)). \<forall>c\<in>set l. \<not> islinebreak c"
        by (rule "3.IH"(3)[OF False nb]) (use "3.prems" nb in simp)
      moreover have "splitlines_from cur (c # d # cs) = splitlines_from (cur @ [c]) (d # cs)"
        by (subst splitlines_from.simps(3)) (simp only: if_not_P[OF False] if_not_P[OF nb])
      ultimately show ?thesis by (simp del: splitlines_from.simps)
    qed
  qed
qed

lemma splitlines_no_linebreak:
  "l \<in> set (splitlines s) \<Longrightarrow> c \<in> set l \<Longrightarrow> \<not> islinebreak c"
  using splitlines_from_no_linebreak[of "[]" s] by (simp add: splitlines_def)

lemma strip_nonempty: "strip l \<noteq> [] \<Longrightarrow> l \<noteq> []"
  by (auto simp: strip_def)

lemma join_no_CR:
  "\<forall>l\<in>set ls. \<forall>c\<in>set l. \<not> islinebreak c \<Longrightarrow> CR \<notin> set (join [LF] ls)"
  by (induction "[LF]" ls rule: join.induct) auto

lemma splitlines_join:
  assumes "ls \<noteq> []" "\<forall>l\<in>set ls. l \<noteq> [] \<and> (\<forall>c\<in>set l. \<not> islinebreak c)"
    and "fin = [] \<or> fin = [LF]"
  shows "splitlines (join [LF] ls @ fin) = ls"
  using assms(1,2)
proof (induction "[LF]" ls rule: join.induct)
  case 1
  then show ?case by simp
next
  case (2 x)
  then have "splitlines_from [] (x @ fin) = splitlines_from ([] @ x) fin"
    using assms(3) by (intro splitlines_from_line) auto
  with 2 assms(3) show ?case by (auto simp: splitlines_def)
next
  case (3 x y ys)
  have nocr: "CR \<notin> set (LF # join [LF] (y # ys) @ fin)"
    using join_no_CR[of "y # ys"] 3(3) assms(3) by auto
  have "splitlines_from [] (x @ (LF # join [LF] (y # ys) @ fin))
          = splitlines_from ([] @ x) (LF # join [LF] (y # ys) @ fin)"
    using 3(3) nocr by (intro splitlines_from_line) auto
  also have "\<dots> = x # splitlines_from [] (join [LF] (y # ys) @ fin)"
    using splitlines_from_Cons[OF nocr] by simp
  also have "\<dots> = x # y # ys"
    using 3 by (simp add: splitlines_def)
  finally show ?case by (simp add: splitlines_def)
qed

lemma splitlines_keeps_and_gains:
  assumes t: "CR \<notin> set t"
    and ls: "ls \<noteq> []" "\<forall>l\<in>set ls. l \<noteq> [] \<and> (\<forall>c\<in>set l. \<not> islinebreak c)"
    and sep: "sep = [] \<or> sep = [LF]" "t @ sep = [] \<or> last (t @ sep) = LF"
    and fin: "fin = [] \<or> fin = [LF]"
  shows "set (splitlines t) \<union> set ls \<subseteq> set (splitlines (t @ sep @ join [LF] ls @ fin))"
proof (cases "t @ sep = []")
  case True
  then show ?thesis
    using splitlines_join[OF ls fin] by (simp add: splitlines_def)
next
  case False
  with sep(2) obtain a where a: "t @ sep = a @ [LF]"
    by (metis append_butlast_last_id)
  then have "set (t @ sep) = set (a @ [LF])" by simp
  then have "set a \<subseteq> set t \<union> set sep" by auto
  with t sep(1) have nocr_a: "CR \<notin> set a" by auto
  have nocr_j: "CR \<notin> set (join [LF] ls @ fin)"
    using join_no_CR[of ls] ls(2) fin by auto
  have "(t @ sep) @ join [LF] ls @ fin = (a @ [LF]) @ join [LF] ls @ fin"
    by (simp only: a)
  then have e: "t @ sep @ join [LF] ls @ fin = a @ LF # (join [LF] ls @ fin)"
    by simp
  have "splitlines (t @ sep @ join [LF] ls @ fin)
          = splitlines (a @ [LF]) @ splitlines (join [LF] ls @ fin)"
    unfolding e splitlines_def by (rule splitlines_from_LF[OF nocr_a nocr_j])
  then have "splitlines (t @ sep @ join [LF] ls @ fin)
               = splitlines (t @ sep) @ splitlines (join [LF] ls @ fin)"
    by (simp only: a)
  moreover have "set (splitlines t) \<subseteq> set (splitlines (t @ sep))"
    using sep(1) splitlines_from_more[OF t, of "[]"] by (auto simp: splitlines_def)
  ultimately show ?thesis
    using splitlines_join[OF ls fin] by auto
qed

lemma splitlines_after_readline:
  assumes "CR \<notin> set txt"
  shows "set (splitlines (snd (readline txt))) \<subseteq> set (splitlines txt)"
proof (cases "dropWhile (\<lambda>c. c \<noteq> LF) txt")
  case Nil
  then have "snd (readline txt) = []" by (simp only: readline_def snd_conv drop.simps)
  then show ?thesis by (simp add: splitlines_def)
next
  case (Cons c rest)
  then have ne: "dropWhile (\<lambda>c. c \<noteq> LF) txt \<noteq> []" by simp
  have isLF: "c = LF"
    using hd_dropWhile [OF ne] Cons by simp
  have "takeWhile (\<lambda>c. c \<noteq> LF) txt @ dropWhile (\<lambda>c. c \<noteq> LF) txt = txt"
    by (rule takeWhile_dropWhile_id)
  then have whole: "txt = takeWhile (\<lambda>c. c \<noteq> LF) txt @ LF # rest"
    by (simp only: Cons isLF)
  have body: "snd (readline txt) = rest"
    by (simp only: readline_def snd_conv Cons) simp
  have "set txt = set (takeWhile (\<lambda>c. c \<noteq> LF) txt) \<union> set (LF # rest)"
    using whole by (metis set_append)
  with assms have "CR \<notin> set (takeWhile (\<lambda>c. c \<noteq> LF) txt)" "CR \<notin> set rest"
    by auto
  from splitlines_from_LF[OF this, of "[]"]
  have "splitlines_from [] (takeWhile (\<lambda>c. c \<noteq> LF) txt @ LF # rest)
          = splitlines_from [] (takeWhile (\<lambda>c. c \<noteq> LF) txt @ [LF]) @ splitlines_from [] rest" .
  with whole have "splitlines txt
          = splitlines_from [] (takeWhile (\<lambda>c. c \<noteq> LF) txt @ [LF]) @ splitlines rest"
    by (simp add: splitlines_def)
  with body show ?thesis by simp
qed

subsection \<open>Opening files\<close>

lemma exists_walk:
  "exists fs p \<longleftrightarrow> (\<exists>q x. walk fs MAXSYMLINKS [] p = Inr q \<and> lookup fs q = Some x)"
  by (auto simp: exists_def stat_def split: sum.splits option.splits)

lemma open_read_walk:
  "open_read fs p = Inr content \<longleftrightarrow>
     (\<exists>q. walk fs MAXSYMLINKS [] p = Inr q \<and> lookup fs q = Some (File content))"
  by (auto simp: open_read_def stat_def split: sum.splits option.splits entry.splits)

lemma open_write_walk:
  "open_write fs p = Inr (q, stored) \<longleftrightarrow>
     walk fs MAXSYMLINKS [] p = Inr q
     \<and> (lookup fs q = Some (File stored) \<or> lookup fs q = None \<and> stored = [])"
  by (auto simp: open_write_def split: sum.splits option.splits entry.splits)

lemma open_read_Dir:
  "is_dir fs p \<Longrightarrow> open_read fs p = Inl IsADirectoryError"
  by (auto simp: is_dir_walk open_read_def stat_def)

lemma is_dir_exists: "is_dir fs p \<Longrightarrow> exists fs p"
  by (auto simp: is_dir_walk exists_walk)

lemma is_dir_parent:
  assumes "is_dir fs p"
  shows "is_dir fs (parent p)"
proof (cases "p = []")
  case True
  with assms show ?thesis by (simp add: parent_def)
next
  case False
  then have p: "p = butlast p @ [last p]" by simp
  from assms obtain q where "walk fs MAXSYMLINKS [] p = Inr q" "lookup fs q = Some Dir"
    by (auto simp: is_dir_walk)
  then have "walk fs MAXSYMLINKS [] (butlast p @ [last p]) = Inr q" "lookup fs q \<noteq> None"
    using p by simp_all
  from walk_snoc_exists[OF this lookup_root] show ?thesis
    by (auto simp: is_dir_walk parent_def)
qed

text \<open>Storing a file where \<open>open_write\<close> found a file or nothing.\<close>

lemma walk_after_write:
  assumes "open_write fs p = Inr (q, stored)" and "walk fs n cur rest = Inr r"
  shows "walk (AList.update q (File new) fs) n cur rest = Inr r"
proof (rule walk_mono[OF assms(2)])
  show "\<forall>x. lookup (AList.update q (File new) fs) x \<noteq> lookup fs x \<longrightarrow>
            (lookup fs x = None \<or> (\<exists>c. lookup fs x = Some (File c)))
            \<and> (lookup (AList.update q (File new) fs) x = Some Dir
                \<or> (\<exists>c. lookup (AList.update q (File new) fs) x = Some (File c)))"
    using assms(1) by (auto simp: open_write_walk lookup_update split: if_splits)
qed

lemma open_read_after_write:
  assumes "open_write fs p = Inr (q, stored)"
  shows "open_read (AList.update q (File new) fs) p = Inr new"
proof -
  from assms have w: "walk fs MAXSYMLINKS [] p = Inr q" and q: "q \<noteq> []"
    by (auto simp: open_write_walk)
  from walk_after_write[OF assms w] q show ?thesis
    by (auto simp: open_read_walk lookup_update)
qed

lemma open_read_elsewhere:
  assumes "open_write fs p = Inr (q, stored)" and "open_read fs s = Inr content"
    and "walk fs MAXSYMLINKS [] s \<noteq> Inr q"
  shows "open_read (AList.update q (File new) fs) s = Inr content"
proof -
  from assms(2) obtain r where w: "walk fs MAXSYMLINKS [] s = Inr r"
    and r: "lookup fs r = Some (File content)"
    by (auto simp: open_read_walk)
  with assms(3) have "r \<noteq> q" by auto
  with walk_after_write[OF assms(1) w] r show ?thesis
    by (auto simp: open_read_walk lookup_update)
qed

lemma is_dir_after_write:
  assumes "open_write fs p = Inr (q, stored)" and "is_dir fs d"
  shows "is_dir (AList.update q (File new) fs) d"
proof -
  from assms(2) obtain r where w: "walk fs MAXSYMLINKS [] d = Inr r"
    and r: "lookup fs r = Some Dir"
    by (auto simp: is_dir_walk)
  with assms(1) have "r \<noteq> q" by (auto simp: open_write_walk)
  with walk_after_write[OF assms(1) w] r show ?thesis
    by (auto simp: is_dir_walk lookup_update)
qed

lemma open_read_only_new_dirs:
  assumes "open_read fs s = Inr content" and "only_new_dirs fs fs'"
  shows "open_read fs' s = Inr content"
proof -
  from assms(1) obtain r where w: "walk fs MAXSYMLINKS [] s = Inr r"
    and r: "lookup fs r = Some (File content)"
    by (auto simp: open_read_walk)
  from r assms(2) have "lookup fs' r = Some (File content)"
    unfolding only_new_dirs_def by (metis option.distinct(1))
  with walk_only_new_dirs[OF w assms(2)] show ?thesis
    by (auto simp: open_read_walk)
qed

subsection \<open>The steps of the merge\<close>

lemma existing_lines:
  assumes "open_write fs1 destination = Inr (q, stored)"
  shows "(if exists fs1 destination
          then (case read_file_content fs1 destination False of
                  Inl e \<Rightarrow> Inl e
                | Inr existing_content \<Rightarrow> Inr (set (splitlines existing_content)))
          else Inr {}) = Inr (set (splitlines (universal_newlines stored)))"
proof (cases "exists fs1 destination")
  case True
  with assms have "open_read fs1 destination = Inr stored"
    by (auto simp: open_write_walk exists_walk open_read_walk)
  with True show ?thesis by (simp add: read_file_content_def)
next
  case False
  with assms have "stored = []"
    by (auto simp: open_write_walk exists_walk)
  with False show ?thesis by (simp add: splitlines_def)
qed

lemma append_to_file_writable:
  assumes "mkdir fs (parent destination) True True = (Inr u, fs1)"
    and "read_file_content fs1 source True = Inr body"
    and "open_write fs1 destination = Inr (q, stored)"
  shows "append_to_file host fs source destination =
     (let source_lines = filter (\<lambda>line. strip line \<noteq> []) (splitlines body);
          lines_to_write =
            filter (\<lambda>line. line \<notin> set (splitlines (universal_newlines stored))) source_lines
      in if source_lines = [] then (Inr NothingToAppend, fs1)
         else if lines_to_write = [] then (Inr UpToDate, fs1)
         else (Inr (Appended (length lines_to_write)),
               AList.update q
                 (File (stored @ text_write host
                    ((if stored \<noteq> [] \<and> last stored \<noteq> LF then [LF] else [])
                     @ join [LF] lines_to_write
                     @ (if endswith body [LF] then [LF] else []))))
                 fs1))"
  by (simp add: append_to_file_def assms existing_lines[OF assms(3)] Let_def)

lemma append_to_file_not_writable:
  assumes "mkdir fs (parent destination) True True = (Inr u, fs1)"
    and "read_file_content fs1 source True = Inr body"
    and "open_write fs1 destination = Inl e"
  shows "\<exists>e'. append_to_file host fs source destination =
     (if filter (\<lambda>line. strip line \<noteq> []) (splitlines body) = [] then Inr NothingToAppend
      else Inl e', fs1)"
proof -
  have "open_read fs1 destination \<noteq> Inr x" for x
    using assms(3) by (auto simp: open_read_walk open_write_def)
  then have "read_file_content fs1 destination False \<noteq> Inr x" for x
    by (auto simp: read_file_content_def split: sum.splits)
  then show ?thesis
    by (auto simp: append_to_file_def assms Let_def split: sum.splits)
qed

lemma append_to_file_Inr:
  assumes "append_to_file host fs source destination = (Inr r, fs')"
  shows "\<exists>fs1 body. mkdir fs (parent destination) True True = (Inr (), fs1)
                    \<and> read_file_content fs1 source True = Inr body"
proof -
  obtain r1 fs1 where mk: "mkdir fs (parent destination) True True = (r1, fs1)" by force
  show ?thesis
  proof (cases r1)
    case (Inl e)
    with mk assms show ?thesis by (simp add: append_to_file_def)
  next
    case (Inr u)
    show ?thesis
    proof (cases "read_file_content fs1 source True")
      case (Inl e)
      with mk Inr assms show ?thesis by (simp add: append_to_file_def)
    next
      case body: (Inr body)
      with mk Inr show ?thesis by auto
    qed
  qed
qed

lemma appended_lines_present:
  assumes ls: "ls \<noteq> []" "\<forall>l\<in>set ls. l \<noteq> [] \<and> (\<forall>c\<in>set l. \<not> islinebreak c)"
    and fin: "fin = [] \<or> fin = [LF]"
  shows "set (splitlines (universal_newlines stored)) \<union> set ls
         \<subseteq> set (splitlines (universal_newlines
               (stored @ text_write host
                  ((if stored \<noteq> [] \<and> last stored \<noteq> LF then [LF] else []) @ join [LF] ls @ fin))))"
proof -
  define sep where "sep = (if stored \<noteq> [] \<and> last stored \<noteq> LF then [LF] else [])"
  define x where "x = sep @ join [LF] ls @ fin"
  have sep_cases: "sep = [] \<or> sep = [LF]" by (simp add: sep_def)
  have nocr: "CR \<notin> set x"
    using join_no_CR[of ls] ls(2) fin sep_cases by (auto simp: x_def)
  have t: "CR \<notin> set (universal_newlines stored)" by (rule universal_newlines_no_CR)
  note rb = read_back_written[OF nocr, of stored host]
  show ?thesis
  proof (cases "host \<noteq> Windows \<and> stored \<noteq> [] \<and> last stored = CR \<and> x \<noteq> [] \<and> hd x = LF")
    case True
    then have s: "sep = [LF]" by (simp add: sep_def)
    from True have "universal_newlines stored \<noteq> [] \<and> last (universal_newlines stored) = LF"
      by (intro universal_newlines_last) auto
    then have e: "universal_newlines stored @ [] = [] \<or> last (universal_newlines stored @ []) = LF"
      by simp
    have "universal_newlines (stored @ text_write host x)
            = universal_newlines stored @ [] @ join [LF] ls @ fin"
      using rb True by (simp add: x_def s)
    with splitlines_keeps_and_gains[OF t ls _ e fin] show ?thesis
      by (simp add: x_def sep_def)
  next
    case False
    have e: "universal_newlines stored @ sep = [] \<or> last (universal_newlines stored @ sep) = LF"
    proof (cases "stored \<noteq> [] \<and> last stored \<noteq> LF")
      case True
      then show ?thesis by (simp add: sep_def)
    next
      case nosep: False
      show ?thesis
      proof (cases "stored = []")
        case True
        then show ?thesis by (simp add: sep_def)
      next
        case ne: False
        with nosep have "last stored = LF" by simp
        with ne universal_newlines_last[of stored] nosep show ?thesis
          by (simp add: sep_def)
      qed
    qed
    have "universal_newlines (stored @ text_write host x)
            = universal_newlines stored @ sep @ join [LF] ls @ fin"
      using rb unfolding if_not_P[OF False] by (simp add: x_def)
    with splitlines_keeps_and_gains[OF t ls sep_cases e fin] show ?thesis
      by (simp add: x_def sep_def)
  qed
qed

lemma written_lines_wellformed:
  "\<forall>l\<in>set (filter (\<lambda>line. line \<notin> E) (filter (\<lambda>line. strip line \<noteq> []) (splitlines body))).
     l \<noteq> [] \<and> (\<forall>c\<in>set l. \<not> islinebreak c)"
  using splitlines_no_linebreak strip_nonempty by auto


lemma append_to_file_Appended:
  assumes "append_to_file host fs source destination = (Inr (Appended k), fs')"
  shows "\<exists>fs1 body q stored.
           mkdir fs (parent destination) True True = (Inr (), fs1)
         \<and> read_file_content fs1 source True = Inr body
         \<and> open_write fs1 destination = Inr (q, stored)
         \<and> filter (\<lambda>line. line \<notin> set (splitlines (universal_newlines stored)))
              (filter (\<lambda>line. strip line \<noteq> []) (splitlines body)) \<noteq> []
         \<and> k = length (filter (\<lambda>line. line \<notin> set (splitlines (universal_newlines stored)))
                          (filter (\<lambda>line. strip line \<noteq> []) (splitlines body)))
         \<and> fs' = AList.update q
                    (File (stored @ text_write host
                       ((if stored \<noteq> [] \<and> last stored \<noteq> LF then [LF] else [])
                        @ join [LF] (filter (\<lambda>line. line \<notin> set (splitlines (universal_newlines stored)))
                                       (filter (\<lambda>line. strip line \<noteq> []) (splitlines body)))
                        @ (if endswith body [LF] then [LF] else []))))
                    fs1"
proof -
  from append_to_file_Inr[OF assms] obtain fs1 body where
    mk: "mkdir fs (parent destination) True True = (Inr (), fs1)" and
    rd: "read_file_content fs1 source True = Inr body"
    by blast
  show ?thesis
  proof (cases "open_write fs1 destination")
    case (Inl e)
    from append_to_file_not_writable[OF mk rd Inl, of host] assms show ?thesis
      by (auto split: if_splits)
  next
    case (Inr found)
    then obtain q stored where ow: "open_write fs1 destination = Inr (q, stored)"
      by (cases found) auto
    from append_to_file_writable[OF mk rd ow, of host] assms mk rd ow show ?thesis
      by (auto simp: Let_def split: if_splits)
  qed
qed

lemma open_write_stored:
  assumes "open_write fs p = Inr (q, stored)"
  shows "stored = (case open_read fs p of Inl e \<Rightarrow> [] | Inr content \<Rightarrow> content)"
proof (cases "open_read fs p")
  case (Inl e)
  with assms show ?thesis
    by (auto simp: open_write_walk open_read_def stat_def split: sum.splits option.splits entry.splits)
next
  case (Inr content)
  with assms have "content = stored"
    by (auto simp: open_write_walk open_read_walk)
  with Inr show ?thesis by simp
qed

lemma count_list_filter:
  "count_list (filter P xs) x = (if P x then count_list xs x else 0)"
  by (induction xs) auto

lemma append_to_file_Inl:
  assumes "append_to_file host fs source destination = (Inl e, fs')"
  shows "only_new_dirs fs fs'"
proof -
  obtain r1 fs1 where mk: "mkdir fs (parent destination) True True = (r1, fs1)" by force
  have ond: "only_new_dirs fs fs1" by (rule mkdir_only_new_dirs[OF mk])
  have "snd (append_to_file host fs source destination) = fs1 \<or>
        (\<exists>k. fst (append_to_file host fs source destination) = Inr (Appended k))"
    by (auto simp: append_to_file_def mk Let_def split: sum.splits prod.splits)
  with assms have "fs' = fs1" by auto
  with ond show ?thesis by simp
qed

subsection \<open>The content merger\<close>

text \<open>
  C2: when a run of \<open>append_to_file\<close> has returned normally, a second run with the same
  source on the file system the first one left returns normally as well, reports that
  nothing is to be appended, and leaves that file system as it is.
\<close>

theorem append_to_file_idempotent:
  assumes "append_to_file host fs source destination = (Inr r, fs')"
  shows "append_to_file host fs' source destination = (Inr UpToDate, fs')
         \<or> append_to_file host fs' source destination = (Inr NothingToAppend, fs')"
proof -
  from append_to_file_Inr[OF assms] obtain fs1 body where
    mk: "mkdir fs (parent destination) True True = (Inr (), fs1)" and
    rd: "read_file_content fs1 source True = Inr body"
    by blast
  have dir1: "is_dir fs1 (parent destination)" by (rule mkdir_is_dir[OF mk])
  have mk1: "mkdir fs1 (parent destination) True True = (Inr (), fs1)"
    by (rule mkdir_existing[OF dir1])
  define source_lines where "source_lines = filter (\<lambda>line. strip line \<noteq> []) (splitlines body)"
  show ?thesis
  proof (cases "open_write fs1 destination")
    case (Inl e)
    from append_to_file_not_writable[OF mk rd Inl, of host] assms
    have "source_lines = []" "fs' = fs1"
      by (auto simp: source_lines_def split: if_splits)
    with append_to_file_not_writable[OF mk1 rd Inl, of host] show ?thesis
      by (auto simp: source_lines_def)
  next
    case (Inr found)
    then obtain q stored where ow: "open_write fs1 destination = Inr (q, stored)"
      by (cases found) auto
    define lines_to_write where
      "lines_to_write = filter (\<lambda>line. line \<notin> set (splitlines (universal_newlines stored))) source_lines"
    define new where
      "new = stored @ text_write host
                ((if stored \<noteq> [] \<and> last stored \<noteq> LF then [LF] else [])
                 @ join [LF] lines_to_write
                 @ (if endswith body [LF] then [LF] else []))"
    have run: "append_to_file host fs0 source destination =
        (if source_lines = [] then (Inr NothingToAppend, fs1)
         else if lines_to_write = [] then (Inr UpToDate, fs1)
         else (Inr (Appended (length lines_to_write)), AList.update q (File new) fs1))"
      if "mkdir fs0 (parent destination) True True = (Inr (), fs1)" for fs0
      using append_to_file_writable[OF that rd ow, of host]
      by (simp add: Let_def source_lines_def lines_to_write_def new_def)
    note run1 = run[OF mk] and run1' = run[OF mk1]
    show ?thesis
    proof (cases "source_lines = [] \<or> lines_to_write = []")
      case True
      with run1 assms have "fs' = fs1" by (auto simp: Let_def split: if_splits)
      with run1' True show ?thesis by (auto simp: Let_def)
    next
      case False
      with run1 assms have fs': "fs' = AList.update q (File new) fs1"
        by (auto simp: Let_def)
      have mk2: "mkdir fs' (parent destination) True True = (Inr (), fs')"
        unfolding fs' by (rule mkdir_existing[OF is_dir_after_write[OF ow dir1]])
      from rd obtain raw where raw: "open_read fs1 source = Inr raw"
        and body: "body = snd (readline (universal_newlines raw))"
        by (auto simp: read_file_content_def split: sum.splits)
      have apart: "walk fs1 MAXSYMLINKS [] source \<noteq> Inr q"
      proof
        assume "walk fs1 MAXSYMLINKS [] source = Inr q"
        with raw ow have "stored = raw"
          by (auto simp: open_read_walk open_write_walk)
        moreover have "set (splitlines body) \<subseteq> set (splitlines (universal_newlines raw))"
          unfolding body by (rule splitlines_after_readline[OF universal_newlines_no_CR])
        ultimately have "lines_to_write = []"
          by (auto simp: lines_to_write_def source_lines_def filter_empty_conv)
        with False show False by simp
      qed
      have "open_read fs' source = Inr raw"
        unfolding fs' by (rule open_read_elsewhere[OF ow raw apart])
      then have rd2: "read_file_content fs' source True = Inr body"
        by (simp add: read_file_content_def body)
      have "open_read fs' destination = Inr new"
        unfolding fs' by (rule open_read_after_write[OF ow])
      moreover have "walk fs' MAXSYMLINKS [] destination = Inr q"
        unfolding fs' using ow by (intro walk_after_write[OF ow]) (simp add: open_write_walk)
      ultimately have ow2: "open_write fs' destination = Inr (q, new)"
        by (auto simp: open_read_walk open_write_walk)
      have fin: "(if endswith body [LF] then [LF] else []) = [] \<or>
                 (if endswith body [LF] then [LF] else []) = [LF]"
        by simp
      have wf: "\<forall>l\<in>set lines_to_write. l \<noteq> [] \<and> (\<forall>c\<in>set l. \<not> islinebreak c)"
        unfolding lines_to_write_def source_lines_def by (rule written_lines_wellformed)
      from False have ne: "lines_to_write \<noteq> []" by simp
      have "set (splitlines (universal_newlines stored)) \<union> set lines_to_write
              \<subseteq> set (splitlines (universal_newlines new))"
        unfolding new_def by (rule appended_lines_present[OF ne wf fin])
      then have "set source_lines \<subseteq> set (splitlines (universal_newlines new))"
        by (auto simp: lines_to_write_def)
      then have "filter (\<lambda>line. line \<notin> set (splitlines (universal_newlines new))) source_lines = []"
        by (auto simp: filter_empty_conv)
      with append_to_file_writable[OF mk2 rd2 ow2, of host] False
      show ?thesis by (simp add: Let_def source_lines_def)
    qed
  qed
qed

theorem append_to_file_idempotent_witness:
  "append_to_file Linux repo_files [''repo'', ''linux'', ''.bashrc''] [''home'', ''u'', ''.bashrc'']
     = (Inr (Appended 2),
        repo_files @ [([''home'', ''u'', ''.bashrc''], File ''export PATH=/a\<newline>alias ll=ls\<newline>'')])
   \<and> append_to_file Linux
         (repo_files @ [([''home'', ''u'', ''.bashrc''], File ''export PATH=/a\<newline>alias ll=ls\<newline>'')])
         [''repo'', ''linux'', ''.bashrc''] [''home'', ''u'', ''.bashrc'']
       = (Inr UpToDate,
          repo_files @ [([''home'', ''u'', ''.bashrc''], File ''export PATH=/a\<newline>alias ll=ls\<newline>'')])"
proof -
  have first: "append_to_file Linux repo_files [''repo'', ''linux'', ''.bashrc''] [''home'', ''u'', ''.bashrc'']
     = (Inr (Appended 2),
        repo_files @ [([''home'', ''u'', ''.bashrc''], File ''export PATH=/a\<newline>alias ll=ls\<newline>'')])"
    by code_simp
  have second: "append_to_file Linux
         (repo_files @ [([''home'', ''u'', ''.bashrc''], File ''export PATH=/a\<newline>alias ll=ls\<newline>'')])
         [''repo'', ''linux'', ''.bashrc''] [''home'', ''u'', ''.bashrc'']
       \<noteq> (Inr NothingToAppend,
          repo_files @ [([''home'', ''u'', ''.bashrc''], File ''export PATH=/a\<newline>alias ll=ls\<newline>'')])"
    by code_simp
  from append_to_file_idempotent [OF first] first second show ?thesis by blast
qed

text \<open>
  C5, as stated: a marker file whose body holds no line that is not blank leaves the file
  system untouched. The source makes the parent directory of the destination before it
  reads the body: here \<open>/home/u/.config\<close> did not exist and is a directory afterwards.
\<close>

theorem append_to_file_empty_body_counterexample:
  "should_append repo_files [''repo'', ''linux'', ''.config'', ''aliases''] = Inr True
   \<and> read_file_content repo_files [''repo'', ''linux'', ''.config'', ''aliases''] True = Inr (''  '' @ [LF, LF])
   \<and> filter (\<lambda>line. strip line \<noteq> []) (splitlines (''  '' @ [LF, LF])) = []
   \<and> lookup repo_files [''home'', ''u'', ''.config''] = None
   \<and> append_to_file Linux repo_files [''repo'', ''linux'', ''.config'', ''aliases'']
        [''home'', ''u'', ''.config'', ''aliases'']
       = (Inr NothingToAppend, repo_files @ [([''home'', ''u'', ''.config''], Dir)])"
  by code_simp

text \<open>
  C5, amended: for a marker file whose body holds no line that is not blank,
  \<open>append_to_file\<close> makes the missing parent directories of the destination and does
  nothing else: it raises the error of that step if it fails and reports "nothing to append"
  otherwise; the file system it leaves differs from the one it found only by directories
  made where nothing was; when the parent directory of the destination is there already,
  the file system is left exactly as it was.
\<close>

theorem append_to_file_empty_body:
  assumes rd: "read_file_content fs source True = Inr body"
    and empty: "filter (\<lambda>line. strip line \<noteq> []) (splitlines body) = []"
  shows "append_to_file host fs source destination =
           (case mkdir fs (parent destination) True True of
              (Inl e, fs1) \<Rightarrow> (Inl e, fs1)
            | (Inr u, fs1) \<Rightarrow> (Inr NothingToAppend, fs1))
         \<and> only_new_dirs fs (snd (append_to_file host fs source destination))
         \<and> (is_dir fs (parent destination) \<longrightarrow>
              append_to_file host fs source destination = (Inr NothingToAppend, fs))"
proof -
  obtain r1 fs1 where mk: "mkdir fs (parent destination) True True = (r1, fs1)" by force
  have ond: "only_new_dirs fs fs1" by (rule mkdir_only_new_dirs[OF mk])
  from rd obtain stored where "open_read fs source = Inr stored"
    and body: "body = snd (readline (universal_newlines stored))"
    by (auto simp: read_file_content_def split: sum.splits)
  from open_read_only_new_dirs[OF this(1) ond] body
  have rd1: "read_file_content fs1 source True = Inr body"
    by (simp add: read_file_content_def)
  have run: "append_to_file host fs source destination =
           (case r1 of Inl e \<Rightarrow> (Inl e, fs1) | Inr u \<Rightarrow> (Inr NothingToAppend, fs1))"
    by (cases r1) (simp_all add: append_to_file_def mk rd1 empty)
  have 1: "append_to_file host fs source destination =
           (case mkdir fs (parent destination) True True of
              (Inl e, fs1) \<Rightarrow> (Inl e, fs1)
            | (Inr u, fs1) \<Rightarrow> (Inr NothingToAppend, fs1))"
    unfolding run mk by (cases r1) simp_all
  have 2: "only_new_dirs fs (snd (append_to_file host fs source destination))"
    unfolding run using ond by (cases r1) simp_all
  have 3: "append_to_file host fs source destination = (Inr NothingToAppend, fs)"
    if "is_dir fs (parent destination)"
    using mkdir_existing[OF that, of True] mk run by simp
  from 1 2 3 show ?thesis by blast
qed

theorem append_to_file_empty_body_witness:
  "read_file_content repo_files [''repo'', ''linux'', ''.config'', ''aliases''] True = Inr (''  '' @ [LF, LF])
   \<and> filter (\<lambda>line. strip line \<noteq> []) (splitlines (''  '' @ [LF, LF])) = []
   \<and> append_to_file Linux repo_files [''repo'', ''linux'', ''.config'', ''aliases'']
        [''home'', ''u'', ''.config'', ''aliases'']
       = (Inr NothingToAppend, repo_files @ [([''home'', ''u'', ''.config''], Dir)])
   \<and> only_new_dirs repo_files (repo_files @ [([''home'', ''u'', ''.config''], Dir)])
   \<and> is_dir repo_files (parent [''home'', ''u'', ''aliases''])
   \<and> append_to_file Linux repo_files [''repo'', ''linux'', ''.config'', ''aliases'']
        [''home'', ''u'', ''aliases'']
       = (Inr NothingToAppend, repo_files)"
proof -
  have rd: "read_file_content repo_files [''repo'', ''linux'', ''.config'', ''aliases''] True
              = Inr (''  '' @ [LF, LF])"
    by code_simp
  have empty: "filter (\<lambda>line. strip line \<noteq> []) (splitlines (''  '' @ [LF, LF])) = []"
    by code_simp
  have mk: "mkdir repo_files (parent [''home'', ''u'', ''.config'', ''aliases'']) True True
              = (Inr (), repo_files @ [([''home'', ''u'', ''.config''], Dir)])"
    by code_simp
  have dir: "is_dir repo_files (parent [''home'', ''u'', ''aliases''])"
    by code_simp
  note first = append_to_file_empty_body [OF rd empty, of Linux "[''home'', ''u'', ''.config'', ''aliases'']"]
  note second = append_to_file_empty_body [OF rd empty, of Linux "[''home'', ''u'', ''aliases'']"]
  from first have run: "append_to_file Linux repo_files [''repo'', ''linux'', ''.config'', ''aliases'']
        [''home'', ''u'', ''.config'', ''aliases'']
       = (Inr NothingToAppend, repo_files @ [([''home'', ''u'', ''.config''], Dir)])"
    by (simp only: mk prod.case sum.case)
  from first have "only_new_dirs repo_files
       (snd (append_to_file Linux repo_files [''repo'', ''linux'', ''.config'', ''aliases'']
               [''home'', ''u'', ''.config'', ''aliases'']))"
    by blast
  then have ond: "only_new_dirs repo_files (repo_files @ [([''home'', ''u'', ''.config''], Dir)])"
    by (simp only: run snd_conv)
  from second dir have run2: "append_to_file Linux repo_files [''repo'', ''linux'', ''.config'', ''aliases'']
        [''home'', ''u'', ''aliases''] = (Inr NothingToAppend, repo_files)"
    by blast
  from rd empty run ond dir run2 show ?thesis by blast
qed

text \<open>
  C6, as stated: each distinct line of the source body is written at most once. The source
  tests each line against the lines the destination held before the run only: with an
  absent destination, a body holding the same line twice is written with both copies.
\<close>

theorem append_to_file_repeats_source_lines_counterexample:
  "lookup repo_files [''home'', ''u'', ''.profile''] = None
   \<and> append_to_file Linux repo_files [''repo'', ''linux'', ''.profile''] [''home'', ''u'', ''.profile'']
       = (Inr (Appended 2),
          repo_files @ [([''home'', ''u'', ''.profile''], File ''export PATH=/a\<newline>export PATH=/a\<newline>'')])
   \<and> count_list (splitlines ''export PATH=/a\<newline>export PATH=/a\<newline>'') ''export PATH=/a'' = 2"
  by code_simp

text \<open>
  C6, amended: a run of \<open>append_to_file\<close> that raises has written no file: it has at most
  made missing parent directories. A run that returns normally has read the body of the
  source and writes exactly the lines of the body that are not blank and do not occur as a
  line of what the destination stored before the run (nothing, if it was absent), in the
  order of the source, each as often as it occurs in the body: a line the destination held
  is never written, a line it did not hold is written once per occurrence. With no such
  line the file system is left as the parent step left it; otherwise the destination file
  receives, after its old content, these lines joined by newlines, and nothing else changes.
\<close>

theorem append_to_file_lines_written:
  "case append_to_file host fs source destination of
     (Inl e, fs') \<Rightarrow> only_new_dirs fs fs'
   | (Inr r, fs') \<Rightarrow>
       (\<exists>fs1 body stored lines.
          mkdir fs (parent destination) True True = (Inr (), fs1)
        \<and> read_file_content fs1 source True = Inr body
        \<and> stored = (case open_read fs1 destination of Inl e \<Rightarrow> [] | Inr content \<Rightarrow> content)
        \<and> lines = filter (\<lambda>line. line \<notin> set (splitlines (universal_newlines stored)))
                    (filter (\<lambda>line. strip line \<noteq> []) (splitlines body))
        \<and> (\<forall>line. count_list lines line =
               (if line \<in> set (splitlines (universal_newlines stored)) then 0
                else count_list (filter (\<lambda>l. strip l \<noteq> []) (splitlines body)) line))
        \<and> (if lines = [] then fs' = fs1 \<and> (r = NothingToAppend \<or> r = UpToDate)
            else r = Appended (length lines)
                 \<and> (\<exists>q. walk fs1 MAXSYMLINKS [] destination = Inr q
                        \<and> fs' = AList.update q
                                   (File (stored @ text_write host
                                      ((if stored \<noteq> [] \<and> last stored \<noteq> LF then [LF] else [])
                                       @ join [LF] lines
                                       @ (if endswith body [LF] then [LF] else []))))
                                   fs1)
                 \<and> open_read fs' destination =
                     Inr (stored @ text_write host
                            ((if stored \<noteq> [] \<and> last stored \<noteq> LF then [LF] else [])
                             @ join [LF] lines
                             @ (if endswith body [LF] then [LF] else [])))))"
proof -
  obtain res fs' where run: "append_to_file host fs source destination = (res, fs')" by force
  show ?thesis
  proof (cases res)
    case (Inl e)
    with run append_to_file_Inl[of host fs source destination e fs'] show ?thesis by simp
  next
    case (Inr r)
    with run have run': "append_to_file host fs source destination = (Inr r, fs')" by simp
    from append_to_file_Inr[OF run'] obtain fs1 body where
      mk: "mkdir fs (parent destination) True True = (Inr (), fs1)" and
      rd: "read_file_content fs1 source True = Inr body"
      by blast
    define stored where
      "stored = (case open_read fs1 destination of Inl e \<Rightarrow> [] | Inr content \<Rightarrow> content)"
    define source_lines where
      "source_lines = filter (\<lambda>line. strip line \<noteq> []) (splitlines body)"
    define lines where
      "lines = filter (\<lambda>line. line \<notin> set (splitlines (universal_newlines stored))) source_lines"
    define new where
      "new = stored @ text_write host
                ((if stored \<noteq> [] \<and> last stored \<noteq> LF then [LF] else [])
                 @ join [LF] lines
                 @ (if endswith body [LF] then [LF] else []))"
    have counts: "\<forall>line. count_list lines line =
               (if line \<in> set (splitlines (universal_newlines stored)) then 0
                else count_list source_lines line)"
      unfolding lines_def by (simp add: count_list_filter)
    have effect: "if lines = [] then fs' = fs1 \<and> (r = NothingToAppend \<or> r = UpToDate)
            else r = Appended (length lines)
                 \<and> (\<exists>q. walk fs1 MAXSYMLINKS [] destination = Inr q
                        \<and> fs' = AList.update q (File new) fs1)
                 \<and> open_read fs' destination = Inr new"
    proof (cases "open_write fs1 destination")
      case (Inl e)
      from append_to_file_not_writable[OF mk rd Inl, of host] run'
      have "source_lines = []" "fs' = fs1" "r = NothingToAppend"
        by (auto simp: source_lines_def split: if_splits)
      then show ?thesis by (simp add: lines_def)
    next
      case (Inr found)
      then obtain q stored0 where ow0: "open_write fs1 destination = Inr (q, stored0)"
        by (cases found) auto
      from open_write_stored[OF ow0] have "stored0 = stored" by (simp add: stored_def)
      with ow0 have ow: "open_write fs1 destination = Inr (q, stored)" by simp
      have eq: "append_to_file host fs source destination =
        (if source_lines = [] then (Inr NothingToAppend, fs1)
         else if lines = [] then (Inr UpToDate, fs1)
         else (Inr (Appended (length lines)), AList.update q (File new) fs1))"
        using append_to_file_writable[OF mk rd ow, of host]
        by (simp add: Let_def source_lines_def lines_def new_def)
      have w: "walk fs1 MAXSYMLINKS [] destination = Inr q"
        using ow by (simp add: open_write_walk)
      show ?thesis
      proof (cases "lines = []")
        case True
        with eq run' show ?thesis by (auto split: if_splits)
      next
        case False
        then have "source_lines \<noteq> []" by (auto simp: lines_def)
        with False eq run' have r: "r = Appended (length lines)"
          and fs': "fs' = AList.update q (File new) fs1"
          by simp_all
        have "open_read fs' destination = Inr new"
          unfolding fs' by (rule open_read_after_write[OF ow])
        with False r fs' w show ?thesis by simp
      qed
    qed
    have lines_eq: "lines = filter (\<lambda>line. line \<notin> set (splitlines (universal_newlines stored)))
                    (filter (\<lambda>line. strip line \<noteq> []) (splitlines body))"
      by (simp add: lines_def source_lines_def)
    note counts' = counts[unfolded source_lines_def]
    note effect' = effect[unfolded new_def]
    have
      "\<exists>fs1 body stored lines.
          mkdir fs (parent destination) True True = (Inr (), fs1)
        \<and> read_file_content fs1 source True = Inr body
        \<and> stored = (case open_read fs1 destination of Inl e \<Rightarrow> [] | Inr content \<Rightarrow> content)
        \<and> lines = filter (\<lambda>line. line \<notin> set (splitlines (universal_newlines stored)))
                    (filter (\<lambda>line. strip line \<noteq> []) (splitlines body))
        \<and> (\<forall>line. count_list lines line =
               (if line \<in> set (splitlines (universal_newlines stored)) then 0
                else count_list (filter (\<lambda>l. strip l \<noteq> []) (splitlines body)) line))
        \<and> (if lines = [] then fs' = fs1 \<and> (r = NothingToAppend \<or> r = UpToDate)
            else r = Appended (length lines)
                 \<and> (\<exists>q. walk fs1 MAXSYMLINKS [] destination = Inr q
                        \<and> fs' = AList.update q
                                   (File (stored @ text_write host
                                      ((if stored \<noteq> [] \<and> last stored \<noteq> LF then [LF] else [])
                                       @ join [LF] lines
                                       @ (if endswith body [LF] then [LF] else []))))
                                   fs1)
                 \<and> open_read fs' destination =
                     Inr (stored @ text_write host
                            ((if stored \<noteq> [] \<and> last stored \<noteq> LF then [LF] else [])
                             @ join [LF] lines
                             @ (if endswith body [LF] then [LF] else []))))"
    proof (intro exI conjI)
      show "mkdir fs (parent destination) True True = (Inr (), fs1)" by (rule mk)
      show "read_file_content fs1 source True = Inr body" by (rule rd)
      show "stored = (case open_read fs1 destination of Inl e \<Rightarrow> [] | Inr content \<Rightarrow> content)"
        by (rule stored_def)
      show "lines = filter (\<lambda>line. line \<notin> set (splitlines (universal_newlines stored)))
                    (filter (\<lambda>line. strip line \<noteq> []) (splitlines body))"
        by (rule lines_eq)
      show "\<forall>line. count_list lines line =
               (if line \<in> set (splitlines (universal_newlines stored)) then 0
                else count_list (filter (\<lambda>l. strip l \<noteq> []) (splitlines body)) line)"
        by (rule counts')
      show "if lines = [] then fs' = fs1 \<and> (r = NothingToAppend \<or> r = UpToDate)
            else r = Appended (length lines)
                 \<and> (\<exists>q. walk fs1 MAXSYMLINKS [] destination = Inr q
                        \<and> fs' = AList.update q
                                   (File (stored @ text_write host
                                      ((if stored \<noteq> [] \<and> last stored \<noteq> LF then [LF] else [])
                                       @ join [LF] lines
                                       @ (if endswith body [LF] then [LF] else []))))
                                   fs1)
                 \<and> open_read fs' destination =
                     Inr (stored @ text_write host
                            ((if stored \<noteq> [] \<and> last stored \<noteq> LF then [LF] else [])
                             @ join [LF] lines
                             @ (if endswith body [LF] then [LF] else [])))"
        by (rule effect')
    qed
    with run' show ?thesis by simp
  qed
qed

theorem append_to_file_lines_written_witness:
  "append_to_file Linux repo_files [''repo'', ''linux'', ''.profile''] [''home'', ''u'', ''.profile'']
       = (Inr (Appended 2),
          repo_files @ [([''home'', ''u'', ''.profile''], File ''export PATH=/a\<newline>export PATH=/a\<newline>'')])
   \<and> (\<exists>fs1 body stored lines.
          mkdir repo_files (parent [''home'', ''u'', ''.profile'']) True True = (Inr (), fs1)
        \<and> read_file_content fs1 [''repo'', ''linux'', ''.profile''] True = Inr body
        \<and> stored = (case open_read fs1 [''home'', ''u'', ''.profile''] of Inl e \<Rightarrow> [] | Inr content \<Rightarrow> content)
        \<and> lines = filter (\<lambda>line. line \<notin> set (splitlines (universal_newlines stored)))
                    (filter (\<lambda>line. strip line \<noteq> []) (splitlines body))
        \<and> (\<forall>line. count_list lines line =
               (if line \<in> set (splitlines (universal_newlines stored)) then 0
                else count_list (filter (\<lambda>l. strip l \<noteq> []) (splitlines body)) line))
        \<and> (if lines = []
            then repo_files @ [([''home'', ''u'', ''.profile''], File ''export PATH=/a\<newline>export PATH=/a\<newline>'')] = fs1
                 \<and> (Appended 2 = NothingToAppend \<or> Appended 2 = UpToDate)
            else Appended 2 = Appended (length lines)
                 \<and> (\<exists>q. walk fs1 MAXSYMLINKS [] [''home'', ''u'', ''.profile''] = Inr q
                        \<and> repo_files @ [([''home'', ''u'', ''.profile''], File ''export PATH=/a\<newline>export PATH=/a\<newline>'')]
                            = AList.update q
                                   (File (stored @ text_write Linux
                                      ((if stored \<noteq> [] \<and> last stored \<noteq> LF then [LF] else [])
                                       @ join [LF] lines
                                       @ (if endswith body [LF] then [LF] else []))))
                                   fs1)
                 \<and> open_read (repo_files @ [([''home'', ''u'', ''.profile''], File ''export PATH=/a\<newline>export PATH=/a\<newline>'')])
                       [''home'', ''u'', ''.profile''] =
                     Inr (stored @ text_write Linux
                            ((if stored \<noteq> [] \<and> last stored \<noteq> LF then [LF] else [])
                             @ join [LF] lines
                             @ (if endswith body [LF] then [LF] else [])))))
   \<and> append_to_file Linux home_with_directories [''repo'', ''linux'', ''.bashrc''] [''home'', ''u'', ''.bashrc'']
       = (Inl IsADirectoryError, home_with_directories)
   \<and> only_new_dirs home_with_directories home_with_directories"
proof -
  have run: "append_to_file Linux repo_files [''repo'', ''linux'', ''.profile''] [''home'', ''u'', ''.profile'']
       = (Inr (Appended 2),
          repo_files @ [([''home'', ''u'', ''.profile''], File ''export PATH=/a\<newline>export PATH=/a\<newline>'')])"
    by code_simp
  have err: "append_to_file Linux home_with_directories [''repo'', ''linux'', ''.bashrc''] [''home'', ''u'', ''.bashrc'']
       = (Inl IsADirectoryError, home_with_directories)"
    by code_simp
  note written = append_to_file_lines_written
    [where host = Linux and fs = repo_files and source = "[''repo'', ''linux'', ''.profile'']"
       and destination = "[''home'', ''u'', ''.profile'']"]
  note raised = append_to_file_lines_written
    [where host = Linux and fs = home_with_directories and source = "[''repo'', ''linux'', ''.bashrc'']"
       and destination = "[''home'', ''u'', ''.bashrc'']"]
  from written have 1: "\<exists>fs1 body stored lines.
          mkdir repo_files (parent [''home'', ''u'', ''.profile'']) True True = (Inr (), fs1)
        \<and> read_file_content fs1 [''repo'', ''linux'', ''.profile''] True = Inr body
        \<and> stored = (case open_read fs1 [''home'', ''u'', ''.profile''] of Inl e \<Rightarrow> [] | Inr content \<Rightarrow> content)
        \<and> lines = filter (\<lambda>line. line \<notin> set (splitlines (universal_newlines stored)))
                    (filter (\<lambda>line. strip line \<noteq> []) (splitlines body))
        \<and> (\<forall>line. count_list lines line =
               (if line \<in> set (splitlines (universal_newlines stored)) then 0
                else count_list (filter (\<lambda>l. strip l \<noteq> []) (splitlines body)) line))
        \<and> (if lines = []
            then repo_files @ [([''home'', ''u'', ''.profile''], File ''export PATH=/a\<newline>export PATH=/a\<newline>'')] = fs1
                 \<and> (Appended 2 = NothingToAppend \<or> Appended 2 = UpToDate)
            else Appended 2 = Appended (length lines)
                 \<and> (\<exists>q. walk fs1 MAXSYMLINKS [] [''home'', ''u'', ''.profile''] = Inr q
                        \<and> repo_files @ [([''home'', ''u'', ''.profile''], File ''export PATH=/a\<newline>export PATH=/a\<newline>'')]
                            = AList.update q
                                   (File (stored @ text_write Linux
                                      ((if stored \<noteq> [] \<and> last stored \<noteq> LF then [LF] else [])
                                       @ join [LF] lines
                                       @ (if endswith body [LF] then [LF] else []))))
                                   fs1)
                 \<and> open_read (repo_files @ [([''home'', ''u'', ''.profile''], File ''export PATH=/a\<newline>export PATH=/a\<newline>'')])
                       [''home'', ''u'', ''.profile''] =
                     Inr (stored @ text_write Linux
                            ((if stored \<noteq> [] \<and> last stored \<noteq> LF then [LF] else [])
                             @ join [LF] lines
                             @ (if endswith body [LF] then [LF] else []))))"
    by (simp only: run prod.case sum.case)
  from raised have 2: "only_new_dirs home_with_directories home_with_directories"
    by (simp only: err prod.case sum.case)
  from run 1 err 2 show ?thesis by (intro conjI)
qed

text \<open>
  C7: when \<open>append_to_file\<close> appends, the file the destination leads to holds afterwards
  what it stored before (nothing, if it did not exist), then, through the text stream,
  a newline exactly if it stored something whose last character was not a newline, then
  the new lines joined by newlines, then a newline exactly if the source text after the
  marker line ended with one. Nothing else in the file system changes.
\<close>

theorem append_to_file_written_text:
  assumes "append_to_file host fs source destination = (Inr (Appended k), fs')"
  shows "\<exists>fs1 body q stored lines.
           mkdir fs (parent destination) True True = (Inr (), fs1)
         \<and> read_file_content fs1 source True = Inr body
         \<and> walk fs1 MAXSYMLINKS [] destination = Inr q
         \<and> stored = (case open_read fs1 destination of Inl e \<Rightarrow> [] | Inr content \<Rightarrow> content)
         \<and> lines = filter (\<lambda>line. line \<notin> set (splitlines (universal_newlines stored)))
                     (filter (\<lambda>line. strip line \<noteq> []) (splitlines body))
         \<and> lines \<noteq> [] \<and> k = length lines
         \<and> fs' = AList.update q
                    (File (stored @ text_write host
                       ((if stored \<noteq> [] \<and> last stored \<noteq> LF then [LF] else [])
                        @ join [LF] lines
                        @ (if endswith body [LF] then [LF] else []))))
                    fs1
         \<and> open_read fs' destination =
             Inr (stored @ text_write host
                    ((if stored \<noteq> [] \<and> last stored \<noteq> LF then [LF] else [])
                     @ join [LF] lines
                     @ (if endswith body [LF] then [LF] else [])))"
proof -
  from append_to_file_Appended[OF assms] obtain fs1 body q stored where
    mk: "mkdir fs (parent destination) True True = (Inr (), fs1)" and
    rd: "read_file_content fs1 source True = Inr body" and
    ow: "open_write fs1 destination = Inr (q, stored)" and
    ne: "filter (\<lambda>line. line \<notin> set (splitlines (universal_newlines stored)))
              (filter (\<lambda>line. strip line \<noteq> []) (splitlines body)) \<noteq> []" and
    k: "k = length (filter (\<lambda>line. line \<notin> set (splitlines (universal_newlines stored)))
                          (filter (\<lambda>line. strip line \<noteq> []) (splitlines body)))" and
    fs': "fs' = AList.update q
                    (File (stored @ text_write host
                       ((if stored \<noteq> [] \<and> last stored \<noteq> LF then [LF] else [])
                        @ join [LF] (filter (\<lambda>line. line \<notin> set (splitlines (universal_newlines stored)))
                                       (filter (\<lambda>line. strip line \<noteq> []) (splitlines body)))
                        @ (if endswith body [LF] then [LF] else []))))
                    fs1"
    by blast
  have w: "walk fs1 MAXSYMLINKS [] destination = Inr q"
    using ow by (simp add: open_write_walk)
  note st = open_write_stored[OF ow]
  have reread: "open_read fs' destination =
             Inr (stored @ text_write host
                    ((if stored \<noteq> [] \<and> last stored \<noteq> LF then [LF] else [])
                     @ join [LF] (filter (\<lambda>line. line \<notin> set (splitlines (universal_newlines stored)))
                                       (filter (\<lambda>line. strip line \<noteq> []) (splitlines body)))
                     @ (if endswith body [LF] then [LF] else [])))"
    unfolding fs' by (rule open_read_after_write[OF ow])
  from mk rd w st ne k fs' reread show ?thesis by blast
qed

theorem append_to_file_written_text_witness:
  "append_to_file Linux home_with_bashrc [''repo'', ''linux'', ''.bashrc''] [''home'', ''u'', ''.bashrc'']
       = (Inr (Appended 1),
          repo_files @ [([''home'', ''u'', ''.bashrc''], File ''export PATH=/a\<newline>alias ll=ls\<newline>'')])
   \<and> (\<exists>fs1 body q stored lines.
           mkdir home_with_bashrc (parent [''home'', ''u'', ''.bashrc'']) True True = (Inr (), fs1)
         \<and> read_file_content fs1 [''repo'', ''linux'', ''.bashrc''] True = Inr body
         \<and> walk fs1 MAXSYMLINKS [] [''home'', ''u'', ''.bashrc''] = Inr q
         \<and> stored = (case open_read fs1 [''home'', ''u'', ''.bashrc''] of Inl e \<Rightarrow> [] | Inr content \<Rightarrow> content)
         \<and> lines = filter (\<lambda>line. line \<notin> set (splitlines (universal_newlines stored)))
                     (filter (\<lambda>line. strip line \<noteq> []) (splitlines body))
         \<and> lines \<noteq> [] \<and> 1 = length lines
         \<and> repo_files @ [([''home'', ''u'', ''.bashrc''], File ''export PATH=/a\<newline>alias ll=ls\<newline>'')]
             = AList.update q
                    (File (stored @ text_write Linux
                       ((if stored \<noteq> [] \<and> last stored \<noteq> LF then [LF] else [])
                        @ join [LF] lines
                        @ (if endswith body [LF] then [LF] else []))))
                    fs1
         \<and> open_read (repo_files @ [([''home'', ''u'', ''.bashrc''], File ''export PATH=/a\<newline>alias ll=ls\<newline>'')])
              [''home'', ''u'', ''.bashrc''] =
             Inr (stored @ text_write Linux
                    ((if stored \<noteq> [] \<and> last stored \<noteq> LF then [LF] else [])
                     @ join [LF] lines
                     @ (if endswith body [LF] then [LF] else []))))"
proof -
  have run: "append_to_file Linux home_with_bashrc [''repo'', ''linux'', ''.bashrc''] [''home'', ''u'', ''.bashrc'']
       = (Inr (Appended 1),
          repo_files @ [([''home'', ''u'', ''.bashrc''], File ''export PATH=/a\<newline>alias ll=ls\<newline>'')])"
    by code_simp
  from run append_to_file_written_text [OF run] show ?thesis
    by (rule conjI)
qed

text \<open>
  C10, as stated: with a directory at the destination, \<open>append_to_file\<close> raises. When the
  body of the source holds no line that is not blank, the source returns before it looks
  at the destination: nothing is raised.
\<close>

theorem append_to_file_directory_destination_counterexample:
  "should_append home_with_directories [''repo'', ''linux'', ''.config'', ''aliases''] = Inr True
   \<and> is_dir home_with_directories [''home'', ''u'', ''.config'', ''aliases'']
   \<and> append_to_file Linux home_with_directories [''repo'', ''linux'', ''.config'', ''aliases'']
        [''home'', ''u'', ''.config'', ''aliases'']
       = (Inr NothingToAppend, home_with_directories)"
  by code_simp

text \<open>
  C10, amended: with a directory at the destination, \<open>append_to_file\<close> leaves the file
  system exactly as it was, so the directory is neither removed nor replaced; it raises
  the error of reading the source if that fails, reports "nothing to append" without
  raising if the body holds no line that is not blank, and else raises
  \<open>IsADirectoryError\<close> when it opens the directory for reading.
\<close>

theorem append_to_file_directory_destination:
  assumes "is_dir fs destination"
  shows "append_to_file host fs source destination =
           (case read_file_content fs source True of
              Inl e \<Rightarrow> Inl e
            | Inr body \<Rightarrow>
                if filter (\<lambda>line. strip line \<noteq> []) (splitlines body) = []
                then Inr NothingToAppend else Inl IsADirectoryError,
            fs)"
proof -
  have mk: "mkdir fs (parent destination) True True = (Inr (), fs)"
    by (rule mkdir_existing[OF is_dir_parent[OF assms]])
  have ex: "exists fs destination" by (rule is_dir_exists[OF assms])
  have rdd: "read_file_content fs destination False = Inl IsADirectoryError"
    by (simp add: read_file_content_def open_read_Dir[OF assms])
  show ?thesis
    by (cases "read_file_content fs source True")
       (simp_all add: append_to_file_def mk ex rdd Let_def)
qed

theorem append_to_file_directory_destination_witness:
  "is_dir home_with_directories [''home'', ''u'', ''.bashrc'']
   \<and> append_to_file Linux home_with_directories [''repo'', ''linux'', ''.bashrc''] [''home'', ''u'', ''.bashrc'']
       = (Inl IsADirectoryError, home_with_directories)
   \<and> is_dir home_with_directories [''home'', ''u'', ''.config'', ''aliases'']
   \<and> append_to_file Windows home_with_directories [''repo'', ''linux'', ''.config'', ''aliases'']
        [''home'', ''u'', ''.config'', ''aliases'']
       = (Inr NothingToAppend, home_with_directories)"
proof -
  have d1: "is_dir home_with_directories [''home'', ''u'', ''.bashrc'']"
    and d2: "is_dir home_with_directories [''home'', ''u'', ''.config'', ''aliases'']"
    by code_simp+
  have r1: "read_file_content home_with_directories [''repo'', ''linux'', ''.bashrc''] True
              = Inr ''export PATH=/a\<newline>\<newline>alias ll=ls\<newline>''"
    and r2: "read_file_content home_with_directories [''repo'', ''linux'', ''.config'', ''aliases''] True
              = Inr (''  '' @ [LF, LF])"
    by code_simp+
  have l1: "filter (\<lambda>line. strip line \<noteq> []) (splitlines ''export PATH=/a\<newline>\<newline>alias ll=ls\<newline>'') \<noteq> []"
    and l2: "filter (\<lambda>line. strip line \<noteq> []) (splitlines (''  '' @ [LF, LF])) = []"
    by code_simp+
  have a1: "append_to_file Linux home_with_directories [''repo'', ''linux'', ''.bashrc''] [''home'', ''u'', ''.bashrc'']
       = (Inl IsADirectoryError, home_with_directories)"
    using append_to_file_directory_destination [OF d1, of Linux "[''repo'', ''linux'', ''.bashrc'']"]
    by (simp only: r1 sum.case l1 if_False)
  have a2: "append_to_file Windows home_with_directories [''repo'', ''linux'', ''.config'', ''aliases'']
        [''home'', ''u'', ''.config'', ''aliases'']
       = (Inr NothingToAppend, home_with_directories)"
    using append_to_file_directory_destination [OF d2, of Windows "[''repo'', ''linux'', ''.config'', ''aliases'']"]
    by (simp only: r2 sum.case l2 if_True simp_thms)
  from d1 a1 d2 a2 show ?thesis by blast
qed

subsection \<open>The link and copy installer\<close>

text \<open>
  C3 at a destination that is a dangling symbolic link: \<open>destination.exists()\<close> follows
  the link and is false, so the link is not removed, and \<open>os.symlink\<close> raises
  \<open>FileExistsError\<close>. The file system is left as it was; no link to the source exists.
\<close>

theorem create_symlink_dangling_link_raises:
  "create_symlink home_with_dangling_link [''repo'', ''linux'', ''.vimrc''] [''home'', ''u'', ''.vimrc''] True
     = (Inl FileExistsError, home_with_dangling_link)
   \<and> is_symlink home_with_dangling_link [''home'', ''u'', ''.vimrc'']
   \<and> \<not> exists home_with_dangling_link [''home'', ''u'', ''.vimrc'']"
  by code_simp

text \<open>
  C4 at a destination that is a directory: \<open>shutil.copy2\<close> copies into the directory,
  under the name of the source. The directory stays, and the call succeeds.
\<close>

theorem copy_file_into_directory:
  "copy_file home_with_directories [''repo'', ''windows'', ''.gitconfig''] [''home'', ''u'', ''.gitconfig'']
     = (Inr (), home_with_directories
                  @ [([''home'', ''u'', ''.gitconfig'', ''.gitconfig''], File ''[core]\<newline>'')])"
  by code_simp

subsection \<open>The driver\<close>

text \<open>
  C8: whatever line other than \<open>y\<close> answers the prompt, \<open>install_dotfiles\<close> returns
  normally, reporting the abort, and the file system is the one it was given.
\<close>

theorem declined_confirmation_changes_nothing:
  "answer \<noteq> ''y'' \<Longrightarrow>
   install_dotfiles fs script_dir home_dir (Some answer) os_name = (Inr AbortedByUser, fs)"
  by (simp add: install_dotfiles_def)

theorem declined_confirmation_changes_nothing_witness:
  "''Y'' \<noteq> ''y''
   \<and> install_dotfiles repo_files [''repo''] [''home'', ''u''] (Some ''Y'') Linux
       = (Inr AbortedByUser, repo_files)
   \<and> install_dotfiles repo_files [''repo''] [''home'', ''u''] (Some []) Linux
       = (Inr AbortedByUser, repo_files)"
  using declined_confirmation_changes_nothing [of "''Y''" repo_files "[''repo'']" "[''home'', ''u'']" Linux]
        declined_confirmation_changes_nothing [of "[]" repo_files "[''repo'']" "[''home'', ''u'']" Linux]
  by simp

text \<open>
  C9: with \<open>system\<close> the lowercased platform identifier, \<open>detect_os\<close> returns Linux for
  \<open>linux\<close>, MacOS for \<open>darwin\<close>, Windows for \<open>windows\<close>, and raises for every other
  identifier; \<open>main\<close> then ends with that error and the file system it was given.
\<close>

theorem detect_os_total_and_early:
  "(lower platform_system = ''linux'' \<longrightarrow> detect_os platform_system = Inr Linux)
   \<and> (lower platform_system = ''darwin'' \<longrightarrow> detect_os platform_system = Inr MacOS)
   \<and> (lower platform_system = ''windows'' \<longrightarrow> detect_os platform_system = Inr Windows)
   \<and> (lower platform_system \<notin> {''linux'', ''darwin'', ''windows''} \<longrightarrow>
        detect_os platform_system = Inl (UnsupportedOperatingSystem (lower platform_system))
        \<and> main fs platform_system script_dir home_dir answer
            = (Inl (UnsupportedOperatingSystem (lower platform_system)), fs))"
  by (simp add: detect_os_def main_def)

theorem detect_os_total_and_early_witness:
  "detect_os ''linux'' = Inr Linux
   \<and> detect_os ''Darwin'' = Inr MacOS
   \<and> detect_os ''Windows'' = Inr Windows
   \<and> detect_os ''Java'' = Inl (UnsupportedOperatingSystem ''java'')
   \<and> main repo_files ''Java'' [''repo''] [''home'', ''u''] (Some ''y'')
       = (Inl (UnsupportedOperatingSystem ''java''), repo_files)"
proof -
  have l: "lower ''linux'' = ''linux''" "lower ''Darwin'' = ''darwin''"
          "lower ''Windows'' = ''windows''" "lower ''Java'' = ''java''"
    by code_simp+
  show ?thesis
    using detect_os_total_and_early [of "''linux''"]
          detect_os_total_and_early [of "''Darwin''"]
          detect_os_total_and_early [of "''Windows''"]
          detect_os_total_and_early [of "''Java''" repo_files "[''repo'']" "[''home'', ''u'']" "Some ''y''"]
    by (simp add: l)
qed

end
